theory Spec2Isabelle
  imports Complex_Main "HOL-Library.Sublist"
begin

section \<open>JavaScript values\<close>

text \<open>
  Strings are lists of 8-bit characters (the Latin-1 range of JavaScript's code units).
  A value that is a string, \<open>null\<close> or \<open>undefined\<close> is a \<open>string option\<close>;
  \<open>truthy\<close> is JavaScript's boolean coercion of such a value: \<open>null\<close>,
  \<open>undefined\<close> and the empty string are falsy.
\<close>

definition truthy :: "string option \<Rightarrow> bool" where
  "truthy v = (case v of None \<Rightarrow> False | Some s \<Rightarrow> s \<noteq> [])"

text \<open>The feature objects of the model file: \<open>{ id, label, type, parent }\<close>.\<close>

record feature =
  feature_id :: string
  feature_label :: "string option"
  feature_type :: "string option"
  feature_parent :: "string option"

section \<open>core/search.js\<close>

text \<open>
  \<open>String.prototype.trim\<close> removes the white space and line terminators of
  ECMAScript at both ends; in the Latin-1 range these are TAB, LF, VT, FF, CR, SP and NBSP.
\<close>

definition isWhiteSpace :: "char \<Rightarrow> bool" where
  "isWhiteSpace c = ((of_char c :: nat) \<in> set [9, 10, 11, 12, 13, 32, 160])"

definition trim :: "string \<Rightarrow> string" where
  "trim s = rev (dropWhile isWhiteSpace (rev (dropWhile isWhiteSpace s)))"

text \<open>
  \<open>String.prototype.toLowerCase\<close> on the Latin-1 range: \<open>A\<close>--\<open>Z\<close> and the
  accented capitals U+00C0--U+00DE (the multiplication sign U+00D7 apart) move up by 32.
\<close>

definition lowerChar :: "char \<Rightarrow> char" where
  "lowerChar c =
     (let n = (of_char c :: nat) in
      if (65 \<le> n \<and> n \<le> 90) \<or> (192 \<le> n \<and> n \<le> 222 \<and> n \<noteq> 215)
      then char_of (n + 32) else c)"

definition toLowerCase :: "string \<Rightarrow> string" where
  "toLowerCase s = map lowerChar s"

text \<open>\<open>s.includes(q)\<close>: \<open>q\<close> occurs in \<open>s\<close> at some position.\<close>

fun startsWith :: "string \<Rightarrow> string \<Rightarrow> bool" where
  "startsWith s [] = True"
| "startsWith [] (q # qs) = False"
| "startsWith (c # cs) (q # qs) = (c = q \<and> startsWith cs qs)"

fun includes_str :: "string \<Rightarrow> string \<Rightarrow> bool" where
  "includes_str [] q = (q = [])"
| "includes_str (c # cs) q = (startsWith (c # cs) q \<or> includes_str cs q)"

text \<open>\<open>f.label || f.id\<close>\<close>

definition labelOrId :: "feature \<Rightarrow> string" where
  "labelOrId f = (if truthy (feature_label f) then the (feature_label f) else feature_id f)"

text \<open>
  \<^verbatim>\<open>
  export function searchFeatures(features, keyword) {
    const q = (keyword || "").trim().toLowerCase();
    if (!q) return [];
    return features
      .filter(f => (f.label || f.id).toLowerCase().includes(q))
      .map(f => f.id);
  }
  \<close>
\<close>

definition searchFeatures :: "feature list \<Rightarrow> string option \<Rightarrow> string list" where
  "searchFeatures features keyword =
     (let q = toLowerCase (trim (if truthy keyword then the keyword else []))
      in if q = [] then []
         else map feature_id (filter (\<lambda>f. includes_str (toLowerCase (labelOrId f)) q) features))"

text \<open>
  The \<open>parentMap\<close> argument of \<open>pathToRoot\<close> is a JavaScript \<open>Map\<close> from ids to
  parent ids (or \<open>null\<close>): a finite map, given by its entries.
\<close>

type_synonym parentMap = "(string \<times> string option) list"

definition map_has :: "parentMap \<Rightarrow> string \<Rightarrow> bool" where
  "map_has m k = (map_of m k \<noteq> None)"

definition map_get :: "parentMap \<Rightarrow> string \<Rightarrow> string option" where
  "map_get m k = (case map_of m k of None \<Rightarrow> None | Some v \<Rightarrow> v)"

text \<open>
  \<^verbatim>\<open>
  export function pathToRoot(targetId, parentMap) {
    const path = [];
    let cur = targetId;
    while (cur && parentMap.has(cur)) {
      path.push(cur);
      cur = parentMap.get(cur);
    }
    if (cur) path.push(cur); // root
    return path.reverse();
  }
  \<close>
  The loop may run forever (a cycle of parent pointers), so it is a partial function:
  \<open>None\<close> is "does not return".
\<close>

partial_function (option) pathToRoot_loop ::
  "parentMap \<Rightarrow> string option \<Rightarrow> string list \<Rightarrow> (string option \<times> string list) option" where
  "pathToRoot_loop parentMap cur path =
     (if truthy cur \<and> map_has parentMap (the cur)
      then pathToRoot_loop parentMap (map_get parentMap (the cur)) (path @ [the cur])
      else Some (cur, path))"

definition pathToRoot :: "string option \<Rightarrow> parentMap \<Rightarrow> string list option" where
  "pathToRoot targetId parentMap =
     (case pathToRoot_loop parentMap targetId [] of
        None \<Rightarrow> None
      | Some (cur, path) \<Rightarrow> Some (rev (if truthy cur then path @ [the cur] else path)))"

text \<open>
  The parent pointers the loop follows: from a non-empty key \<open>c\<close> to its non-empty
  parent \<open>p\<close>. The chain from \<open>t\<close> is acyclic when no id reachable from \<open>t\<close> reaches
  itself again; an id is a root when no pointer leaves it.
\<close>

definition parent_edge :: "parentMap \<Rightarrow> string \<Rightarrow> string \<Rightarrow> bool" where
  "parent_edge m c p = (c \<noteq> [] \<and> p \<noteq> [] \<and> map_of m c = Some (Some p))"

definition acyclic_from :: "parentMap \<Rightarrow> string \<Rightarrow> bool" where
  "acyclic_from m t = (\<forall>y. (parent_edge m)\<^sup>*\<^sup>* t y \<longrightarrow> \<not> (parent_edge m)\<^sup>+\<^sup>+ y y)"

definition is_root :: "parentMap \<Rightarrow> string \<Rightarrow> bool" where
  "is_root m r = (\<not> (\<exists>p. parent_edge m r p))"

section \<open>Numbers\<close>

text \<open>
  JavaScript numbers are IEEE doubles. The model keeps their special values and the
  arithmetic of those (\<open>x / 0\<close>, \<open>Infinity * 0\<close>, \<open>NaN\<close> propagation) and computes
  finite results exactly, over the reals: rounding and overflow of finite results are left
  out, and \<open>-0\<close> is identified with \<open>0\<close>.
\<close>

datatype jsnum = Fin real | PInf | NInf | NaN

fun jneg :: "jsnum \<Rightarrow> jsnum" where
  "jneg (Fin a) = Fin (- a)"
| "jneg PInf = NInf"
| "jneg NInf = PInf"
| "jneg NaN = NaN"

fun jadd :: "jsnum \<Rightarrow> jsnum \<Rightarrow> jsnum" where
  "jadd NaN b = NaN"
| "jadd a NaN = NaN"
| "jadd (Fin a) (Fin b) = Fin (a + b)"
| "jadd (Fin a) b = b"
| "jadd a (Fin b) = a"
| "jadd PInf PInf = PInf"
| "jadd NInf NInf = NInf"
| "jadd PInf NInf = NaN"
| "jadd NInf PInf = NaN"

definition jsub :: "jsnum \<Rightarrow> jsnum \<Rightarrow> jsnum" where
  "jsub a b = jadd a (jneg b)"

text \<open>The sign of a number that is not NaN: \<open>-1\<close>, \<open>0\<close> or \<open>1\<close>.\<close>

fun jsign :: "jsnum \<Rightarrow> int" where
  "jsign (Fin a) = (if a < 0 then - 1 else if a = 0 then 0 else 1)"
| "jsign PInf = 1"
| "jsign NInf = - 1"
| "jsign NaN = 0"

definition inf_of_sign :: "int \<Rightarrow> jsnum" where
  "inf_of_sign s = (if s = 0 then NaN else if 0 < s then PInf else NInf)"

fun jmul :: "jsnum \<Rightarrow> jsnum \<Rightarrow> jsnum" where
  "jmul NaN b = NaN"
| "jmul a NaN = NaN"
| "jmul (Fin a) (Fin b) = Fin (a * b)"
| "jmul a b = inf_of_sign (jsign a * jsign b)"

fun jdiv :: "jsnum \<Rightarrow> jsnum \<Rightarrow> jsnum" where
  "jdiv NaN b = NaN"
| "jdiv a NaN = NaN"
| "jdiv (Fin a) (Fin b) = (if b = 0 then inf_of_sign (jsign (Fin a)) else Fin (a / b))"
| "jdiv (Fin a) b = Fin 0"
| "jdiv a (Fin b) = (if b < 0 then jneg a else a)"
| "jdiv a b = NaN"

fun jless :: "jsnum \<Rightarrow> jsnum \<Rightarrow> bool" where
  "jless NaN b = False"
| "jless a NaN = False"
| "jless (Fin a) (Fin b) = (a < b)"
| "jless NInf b = (b \<noteq> NInf)"
| "jless a PInf = (a \<noteq> PInf)"
| "jless a b = False"

definition Math_min :: "jsnum \<Rightarrow> jsnum \<Rightarrow> jsnum" where
  "Math_min a b = (if a = NaN \<or> b = NaN then NaN else if jless b a then b else a)"

definition Math_max :: "jsnum \<Rightarrow> jsnum \<Rightarrow> jsnum" where
  "Math_max a b = (if a = NaN \<or> b = NaN then NaN else if jless a b then b else a)"

fun Math_abs :: "jsnum \<Rightarrow> jsnum" where
  "Math_abs (Fin a) = Fin \<bar>a\<bar>"
| "Math_abs PInf = PInf"
| "Math_abs NInf = PInf"
| "Math_abs NaN = NaN"

definition isFinite :: "jsnum \<Rightarrow> bool" where
  "isFinite a = (case a of Fin _ \<Rightarrow> True | _ \<Rightarrow> False)"


section \<open>The viewport transform of GraphView\<close>

text \<open>
  A d3 zoom transform \<open>{k, x, y}\<close> and the two methods the component uses:
  \<^verbatim>\<open>
  translate: function(x, y) {
    return x === 0 & y === 0 ? this
      : new Transform(this.k, this.x + this.k * x, this.y + this.k * y);
  },
  scale: function(k) {
    return k === 1 ? this : new Transform(this.k * k, this.x, this.y);
  },
  applyX: function(x) { return x * this.k + this.x; },
  \<close>
\<close>

record transform =
  tk :: jsnum
  tx :: jsnum
  ty :: jsnum

definition zoomIdentity :: transform where
  "zoomIdentity = \<lparr>tk = Fin 1, tx = Fin 0, ty = Fin 0\<rparr>"

definition translate :: "transform \<Rightarrow> jsnum \<Rightarrow> jsnum \<Rightarrow> transform" where
  "translate t x y =
     (if x = Fin 0 \<and> y = Fin 0 then t
      else \<lparr>tk = tk t, tx = jadd (tx t) (jmul (tk t) x), ty = jadd (ty t) (jmul (tk t) y)\<rparr>)"

definition scale :: "transform \<Rightarrow> jsnum \<Rightarrow> transform" where
  "scale t k = (if k = Fin 1 then t else \<lparr>tk = jmul (tk t) k, tx = tx t, ty = ty t\<rparr>)"

definition applyX :: "transform \<Rightarrow> jsnum \<Rightarrow> jsnum" where
  "applyX t x = jadd (jmul x (tk t)) (tx t)"

definition applyY :: "transform \<Rightarrow> jsnum \<Rightarrow> jsnum" where
  "applyY t y = jadd (jmul y (tk t)) (ty t)"

text \<open>
  The DOM handles of the component are represented by what the code reads from them:
  \<open>treeContainer\<close> by the bounding box \<open>treeContainer.node().getBBox()\<close> reports,
  \<open>svgSelection\<close> by the size \<open>getBoundingClientRect()\<close> reports; \<open>None\<close> is the
  \<open>null\<close> of the initial \<open>graphStateRef\<close>. \<open>zoomRef\<close> holds the current transform.
\<close>

record bbox =
  bbox_x :: jsnum
  bbox_y :: jsnum
  bbox_width :: jsnum
  bbox_height :: jsnum

record rect =
  rect_width :: jsnum
  rect_height :: jsnum

record graphState =
  svgSelection :: "rect option"
  treeContainer :: "bbox option"
  viewWidth :: jsnum
  viewHeight :: jsnum
  zoomBehavior :: bool
  initialTransform :: "transform option"

record viewport =
  graphStateRef :: graphState
  zoomRef :: "transform option"

text \<open>
  The initial fit of the rendering effect:
  \<^verbatim>\<open>
  const boundingBox = treeContainer.node().getBBox();
  const fitScale =
    Math.min(viewWidth / boundingBox.width, viewHeight / boundingBox.height) * 0.8;
  const fitTx =
    (viewWidth - boundingBox.width * fitScale) / 2 - boundingBox.x * fitScale;
  const fitTy =
    (viewHeight - boundingBox.height * fitScale) / 2 - boundingBox.y * fitScale;
  const initialTransform = d3.zoomIdentity.translate(fitTx, fitTy).scale(fitScale);
  ...
  zoomRef.current = initialTransform;
  graphStateRef.current = { svgSelection: svg, treeContainer, viewWidth, viewHeight,
                            zoomBehavior, initialTransform };
  \<close>
\<close>

definition fitScale :: "jsnum \<Rightarrow> jsnum \<Rightarrow> bbox \<Rightarrow> jsnum" where
  "fitScale vw vh boundingBox =
     jmul (Math_min (jdiv vw (bbox_width boundingBox)) (jdiv vh (bbox_height boundingBox))) (Fin 0.8)"


definition fitTransform :: "jsnum \<Rightarrow> jsnum \<Rightarrow> bbox \<Rightarrow> transform" where
  "fitTransform vw vh boundingBox =
     (let fitScale = fitScale vw vh boundingBox;
          fitTx = jsub (jdiv (jsub vw (jmul (bbox_width boundingBox) fitScale)) (Fin 2))
                       (jmul (bbox_x boundingBox) fitScale);
          fitTy = jsub (jdiv (jsub vh (jmul (bbox_height boundingBox) fitScale)) (Fin 2))
                       (jmul (bbox_y boundingBox) fitScale)
      in scale (translate zoomIdentity fitTx fitTy) fitScale)"

definition fitToView :: "rect \<Rightarrow> jsnum \<Rightarrow> jsnum \<Rightarrow> bbox \<Rightarrow> viewport" where
  "fitToView svgRect vw vh boundingBox =
     (let fit = fitTransform vw vh boundingBox
      in \<lparr>graphStateRef =
            \<lparr>svgSelection = Some svgRect, treeContainer = Some boundingBox,
             viewWidth = vw, viewHeight = vh, zoomBehavior = True,
             initialTransform = Some fit\<rparr>,
          zoomRef = Some fit\<rparr>)"

text \<open>\<open>zoomRef.current || d3.zoomIdentity\<close>\<close>

definition currentTransform :: "viewport \<Rightarrow> transform" where
  "currentTransform vp = (case zoomRef vp of None \<Rightarrow> zoomIdentity | Some t \<Rightarrow> t)"

text \<open>
  \<^verbatim>\<open>
  const handleAlignCenter = () => {
    const { svgSelection, treeContainer, viewWidth, viewHeight, zoomBehavior } =
      graphStateRef.current;
    if (!svgSelection || !treeContainer || !zoomBehavior) return;
    const currentTransform = zoomRef.current || d3.zoomIdentity;
    const currentScale = currentTransform.k;
    const bbox = treeContainer.node().getBBox();
    const translateX =
      (viewWidth - bbox.width * currentScale) / 2 - bbox.x * currentScale;
    const translateY =
      (viewHeight - bbox.height * currentScale) / 2 - bbox.y * currentScale;
    const centeredTransform = d3.zoomIdentity
      .translate(translateX, translateY)
      .scale(currentScale);
    ...
    zoomRef.current = centeredTransform;
  };
  \<close>
\<close>

definition handleAlignCenter :: "viewport \<Rightarrow> viewport" where
  "handleAlignCenter vp =
     (let gs = graphStateRef vp in
      case (svgSelection gs, treeContainer gs, zoomBehavior gs) of
        (Some svgRect, Some bbox, True) \<Rightarrow>
          (let currentScale = tk (currentTransform vp);
               translateX = jsub (jdiv (jsub (viewWidth gs) (jmul (bbox_width bbox) currentScale)) (Fin 2))
                                 (jmul (bbox_x bbox) currentScale);
               translateY = jsub (jdiv (jsub (viewHeight gs) (jmul (bbox_height bbox) currentScale)) (Fin 2))
                                 (jmul (bbox_y bbox) currentScale);
               centeredTransform = scale (translate zoomIdentity translateX translateY) currentScale
           in vp\<lparr>zoomRef := Some centeredTransform\<rparr>)
      | _ \<Rightarrow> vp)"

text \<open>
  \<^verbatim>\<open>
  const handleResetZoom = () => {
    const { svgSelection, zoomBehavior, initialTransform } = graphStateRef.current;
    if (!svgSelection || !zoomBehavior || !initialTransform) return;
    const currentTransform = zoomRef.current || d3.zoomIdentity;
    const defaultScale = initialTransform.k;
    const viewportRect = svgElement.getBoundingClientRect();
    const centerX = viewportRect.width / 2;
    const centerY = viewportRect.height / 2;
    const graphCenterX = (centerX - currentTransform.x) / currentTransform.k;
    const graphCenterY = (centerY - currentTransform.y) / currentTransform.k;
    const newTranslateX = centerX - graphCenterX * defaultScale;
    const newTranslateY = centerY - graphCenterY * defaultScale;
    const newTransform = d3.zoomIdentity
      .translate(newTranslateX, newTranslateY)
      .scale(defaultScale);
    ...
    zoomRef.current = newTransform;
  };
  \<close>
\<close>

definition handleResetZoom :: "viewport \<Rightarrow> viewport" where
  "handleResetZoom vp =
     (let gs = graphStateRef vp in
      case (svgSelection gs, zoomBehavior gs, initialTransform gs) of
        (Some viewportRect, True, Some initial) \<Rightarrow>
          (let current = currentTransform vp;
               defaultScale = tk initial;
               centerX = jdiv (rect_width viewportRect) (Fin 2);
               centerY = jdiv (rect_height viewportRect) (Fin 2);
               graphCenterX = jdiv (jsub centerX (tx current)) (tk current);
               graphCenterY = jdiv (jsub centerY (ty current)) (tk current);
               newTranslateX = jsub centerX (jmul graphCenterX defaultScale);
               newTranslateY = jsub centerY (jmul graphCenterY defaultScale);
               newTransform = scale (translate zoomIdentity newTranslateX newTranslateY) defaultScale
           in vp\<lparr>zoomRef := Some newTransform\<rparr>)
      | _ \<Rightarrow> vp)"

section \<open>d3 hierarchy nodes\<close>

text \<open>
  A node of \<open>d3.hierarchy\<close>: its \<open>data\<close>, the coordinates \<open>x\<close> and \<open>y\<close> that
  \<open>d3.tree\<close> assigns (\<open>undefined\<close>, here \<open>None\<close>, before the layout) and its
  children. A node object is identified by its position in the tree of its root: the
  path of child indices from the root. \<open>node.parent\<close> is the path without its last index.
\<close>

datatype hnode = HNode (node_data: feature) (node_x: "jsnum option") (node_y: "jsnum option")
  (node_children: "hnode list")

type_synonym path = "nat list"

fun subtree :: "hnode \<Rightarrow> path \<Rightarrow> hnode option" where
  "subtree t [] = Some t"
| "subtree (HNode d x y cs) (i # p) = (if i < length cs then subtree (cs ! i) p else None)"

text \<open>
  \<open>node.descendants()\<close> lists the nodes of a subtree in breadth-first order, level by
  level, each level from left to right.
\<close>

fun level :: "hnode \<Rightarrow> nat \<Rightarrow> path list" where
  "level t 0 = [ [] ]"
| "level (HNode d x y cs) (Suc n) =
     concat (map (\<lambda>(i, c). map ((#) i) (level c n)) (enumerate 0 cs))"

fun height :: "hnode \<Rightarrow> nat" where
  "height (HNode d x y cs) = (if cs = [] then 0 else Suc (fold max (map height cs) 0))"

definition descendants :: "hnode \<Rightarrow> path list" where
  "descendants rootNode = concat (map (level rootNode) [0..<Suc (height rootNode)])"

text \<open>
  \<^verbatim>\<open>
  ancestors: function() {
    var node = this, nodes = [node];
    while (node = node.parent) nodes.push(node);
    return nodes;
  }
  \<close>
\<close>

function ancestors :: "path \<Rightarrow> path list" where
  "ancestors p = (if p = [] then [p] else p # ancestors (butlast p))"
  by pat_completeness auto
termination
  by (relation "measure length") auto

definition node_descendants :: "hnode \<Rightarrow> path \<Rightarrow> path list" where
  "node_descendants rootNode p =
     (case subtree rootNode p of None \<Rightarrow> [] | Some s \<Rightarrow> map ((@) p) (descendants s))"

definition node_id :: "hnode \<Rightarrow> path \<Rightarrow> string option" where
  "node_id rootNode p = map_option (\<lambda>s. feature_id (node_data s)) (subtree rootNode p)"


section \<open>Plain objects used as dictionaries\<close>

text \<open>
  \<open>featureById\<close> and \<open>nodeById\<close> are plain objects (\<open>{}\<close>) indexed by id. A read
  \<open>obj[k]\<close> finds an own entry or, failing that, a member inherited from
  \<open>Object.prototype\<close>: a function (for \<open>__proto__\<close> the prototype object), which is
  truthy and is no node. The write \<open>obj["__proto__"] = v\<close> creates no entry but replaces
  the prototype of \<open>obj\<close>; what is inherited after that depends on the members of \<open>v\<close>
  and is left out of the model: a run that makes this write has the outcome
  \<open>Unmodelled\<close>.

  An outcome is a returned value, a thrown \<open>TypeError\<close>, a run that does not end, or
  \<open>Unmodelled\<close>.
\<close>

datatype 'a outcome = Returns 'a | Throws | Diverges | Unmodelled

definition objectPrototypeKeys :: "string list" where
  "objectPrototypeKeys =
     [''constructor'', ''__defineGetter__'', ''__defineSetter__'', ''hasOwnProperty'',
      ''__lookupGetter__'', ''__lookupSetter__'', ''isPrototypeOf'', ''propertyIsEnumerable'',
      ''toString'', ''valueOf'', ''__proto__'', ''toLocaleString'']"

datatype 'a property = Own 'a | Inherited | Undefined

definition getProperty :: "(string \<rightharpoonup> 'a) \<Rightarrow> string \<Rightarrow> 'a property" where
  "getProperty obj k =
     (case obj k of
        Some v \<Rightarrow> Own v
      | None \<Rightarrow> if k \<in> set objectPrototypeKeys then Inherited else Undefined)"

section \<open>buildHierarchy\<close>

text \<open>
  \<^verbatim>\<open>
  function buildHierarchy(model) {
    const featureById = {};
    model.features.forEach(
      (feature) => (featureById[feature.id] = { ...feature, children: [] })
    );
    model.features.forEach((feature) => {
      if (feature.parent && featureById[feature.parent]) {
        featureById[feature.parent].children.push(featureById[feature.id]);
      }
    });
    const rootFeature = model.features.find((feature) => !feature.parent);
    return rootFeature ? d3.hierarchy(featureById[rootFeature.id]) : null;
  }
  \<close>
  A data object \<open>{ ...feature, children: [] }\<close> is stored under its id; its
  \<open>children\<close> array holds references to other data objects, here their ids (every
  reference is made in the second pass, when each id has its final object).
  Reading \<open>.children\<close> of an inherited member gives \<open>undefined\<close>, and \<open>.push\<close> on
  that throws a \<open>TypeError\<close>.
\<close>

type_synonym dataNode = "feature \<times> string list"

fun createNodes :: "feature list \<Rightarrow> (string \<rightharpoonup> dataNode) \<Rightarrow> (string \<rightharpoonup> dataNode) outcome" where
  "createNodes [] featureById = Returns featureById"
| "createNodes (f # fs) featureById =
     (if feature_id f = ''__proto__'' then Unmodelled
      else createNodes fs (featureById(feature_id f \<mapsto> (f, []))))"

fun linkChildren :: "feature list \<Rightarrow> (string \<rightharpoonup> dataNode) \<Rightarrow> (string \<rightharpoonup> dataNode) outcome" where
  "linkChildren [] featureById = Returns featureById"
| "linkChildren (f # fs) featureById =
     (if truthy (feature_parent f) then
        (case getProperty featureById (the (feature_parent f)) of
           Own (pf, cs) \<Rightarrow>
             linkChildren fs (featureById(the (feature_parent f) \<mapsto> (pf, cs @ [feature_id f])))
         | Inherited \<Rightarrow> Throws
         | Undefined \<Rightarrow> linkChildren fs featureById)
      else linkChildren fs featureById)"

text \<open>
  \<open>d3.hierarchy(data)\<close> copies the data objects reachable through \<open>children\<close> into a
  tree of nodes. On a cyclic object graph it does not end, so the model counts the depth
  it may still descend: \<open>None\<close> is "out of fuel". (A child id always has a data object:
  \<open>linkChildren\<close> pushes only ids that \<open>createNodes\<close> has stored.)
\<close>

fun hierarchy :: "nat \<Rightarrow> (string \<rightharpoonup> dataNode) \<Rightarrow> string \<Rightarrow> hnode option" where
  "hierarchy 0 featureById i = None"
| "hierarchy (Suc n) featureById i =
     (case featureById i of
        None \<Rightarrow> None
      | Some (f, cs) \<Rightarrow>
          (case those (map (hierarchy n featureById) cs) of
             None \<Rightarrow> None
           | Some ts \<Rightarrow> Some (HNode f None None ts)))"

record constraint =
  constraint_a :: string
  constraint_b :: string
  constraint_type :: string

record model =
  features :: "feature list"
  constraints :: "constraint list option"

definition buildHierarchy :: "nat \<Rightarrow> model \<Rightarrow> hnode option outcome" where
  "buildHierarchy fuel model =
     (case createNodes (features model) Map.empty of
        Returns featureById \<Rightarrow>
          (case linkChildren (features model) featureById of
             Returns linked \<Rightarrow>
               (case find (\<lambda>feature. \<not> truthy (feature_parent feature)) (features model) of
                  None \<Rightarrow> Returns None
                | Some rootFeature \<Rightarrow>
                    (case hierarchy fuel linked (feature_id rootFeature) of
                       None \<Rightarrow> Diverges
                     | Some rootNode \<Rightarrow> Returns (Some rootNode)))
           | Throws \<Rightarrow> Throws
           | Diverges \<Rightarrow> Diverges
           | Unmodelled \<Rightarrow> Unmodelled)
      | Throws \<Rightarrow> Throws
      | Diverges \<Rightarrow> Diverges
      | Unmodelled \<Rightarrow> Unmodelled)"

section \<open>drawConstraints\<close>

text \<open>
  \<^verbatim>\<open>
  function drawConstraints(treeContainer, model, rootNode) {
    const nodeById = {};
    rootNode.descendants().forEach((node) => (nodeById[node.data.id] = node));
    const constraintLayer = treeContainer.append("g");
    (model.constraints || []).forEach((constraint) => {
      const sourceNode = nodeById[constraint.a];
      const targetNode = nodeById[constraint.b];
      if (!sourceNode || !targetNode) return;
      const controlMagnitude = Math.max(80, Math.abs(sourceNode.y - targetNode.y) / 3);
      const pathData = d3.line().curve(d3.curveBasis).x((p) => p.x).y((p) => p.y)([
        { x: sourceNode.x, y: sourceNode.y },
        { x: (sourceNode.x + targetNode.x) / 2,
          y: (sourceNode.y + targetNode.y) / 2 - controlMagnitude },
        { x: targetNode.x, y: targetNode.y },
      ]);
      constraintLayer.append("path").attr("d", pathData) ...
        .attr("stroke", constraint.type === "requires" ? "#2196f3" : "#e53935")
        .attr("stroke-dasharray", constraint.type === "requires" ? "4 3" : "6 4") ...;
      [sourceNode, targetNode].forEach((node) => {
        constraintLayer.append("circle").attr("cx", node.x).attr("cy", node.y) ...
          .attr("fill", constraint.type === "requires" ? "#2196f3" : "#e53935") ...;
      });
    });
  }
  \<close>
  What is appended to the constraint layer for one constraint is an \<open>overlay\<close>: the
  control points handed to the line generator (which reads each coordinate as a number,
  \<open>undefined\<close> as \<open>NaN\<close>), the stroke of the path, and the \<open>cx\<close>, \<open>cy\<close> attributes of
  the two marker circles (\<open>None\<close>: the attribute is not set). An inherited member has no
  \<open>x\<close> and no \<open>y\<close>.
\<close>

definition descendant_nodes :: "hnode \<Rightarrow> hnode list" where
  "descendant_nodes rootNode = List.map_filter (subtree rootNode) (descendants rootNode)"

fun indexNodes :: "hnode list \<Rightarrow> (string \<rightharpoonup> hnode) \<Rightarrow> (string \<rightharpoonup> hnode) outcome" where
  "indexNodes [] nodeById = Returns nodeById"
| "indexNodes (node # nodes) nodeById =
     (if feature_id (node_data node) = ''__proto__'' then Unmodelled
      else indexNodes nodes (nodeById(feature_id (node_data node) \<mapsto> node)))"

definition prop_x :: "hnode property \<Rightarrow> jsnum option" where
  "prop_x v = (case v of Own node \<Rightarrow> node_x node | _ \<Rightarrow> None)"

definition prop_y :: "hnode property \<Rightarrow> jsnum option" where
  "prop_y v = (case v of Own node \<Rightarrow> node_y node | _ \<Rightarrow> None)"

definition toNumber :: "jsnum option \<Rightarrow> jsnum" where
  "toNumber v = (case v of None \<Rightarrow> NaN | Some a \<Rightarrow> a)"

record overlay =
  curve :: "(jsnum \<times> jsnum) list"
  path_stroke :: string
  path_dasharray :: string
  markers :: "(jsnum option \<times> jsnum option) list"
  marker_fill :: string

definition drawConstraint :: "(string \<rightharpoonup> hnode) \<Rightarrow> constraint \<Rightarrow> overlay list" where
  "drawConstraint nodeById c =
     (let sourceNode = getProperty nodeById (constraint_a c);
          targetNode = getProperty nodeById (constraint_b c)
      in if sourceNode = Undefined \<or> targetNode = Undefined then []
         else
           (let sourceX = toNumber (prop_x sourceNode); sourceY = toNumber (prop_y sourceNode);
                targetX = toNumber (prop_x targetNode); targetY = toNumber (prop_y targetNode);
                controlMagnitude =
                  Math_max (Fin 80) (jdiv (Math_abs (jsub sourceY targetY)) (Fin 3));
                colour = (if constraint_type c = ''requires'' then ''#2196f3'' else ''#e53935'')
            in [\<lparr>curve = [(sourceX, sourceY),
                           (jdiv (jadd sourceX targetX) (Fin 2),
                            jsub (jdiv (jadd sourceY targetY) (Fin 2)) controlMagnitude),
                           (targetX, targetY)],
                 path_stroke = colour,
                 path_dasharray = (if constraint_type c = ''requires'' then ''4 3'' else ''6 4''),
                 markers = [(prop_x sourceNode, prop_y sourceNode),
                            (prop_x targetNode, prop_y targetNode)],
                 marker_fill = colour\<rparr>]))"

definition drawConstraints :: "model \<Rightarrow> hnode \<Rightarrow> overlay list outcome" where
  "drawConstraints model rootNode =
     (case indexNodes (descendant_nodes rootNode) Map.empty of
        Returns nodeById \<Rightarrow>
          Returns (concat (map (drawConstraint nodeById)
                     (case constraints model of None \<Rightarrow> [] | Some cs \<Rightarrow> cs)))
      | Throws \<Rightarrow> Throws
      | Diverges \<Rightarrow> Diverges
      | Unmodelled \<Rightarrow> Unmodelled)"

section \<open>applyHighlights\<close>

text \<open>
  \<^verbatim>\<open>
  function applyHighlights(nodeSelection, linkSelection, highlightedIds, rootNode) {
    if (!highlightedIds?.length) return;
    const highlighted = new Set(highlightedIds);
    const relatedNodes = new Set();
    rootNode.descendants().forEach((node) => {
      if (highlighted.has(node.data.id)) {
        relatedNodes.add(node);
        node.ancestors().forEach((ancestor) => relatedNodes.add(ancestor));
        node.descendants().forEach((descendant) => relatedNodes.add(descendant));
      }
    });
    nodeSelection
      .attr("stroke", (node) =>
        highlighted.has(node.data.id) ? "#e53935"
          : relatedNodes.has(node) ? "#f48fb1" : "#fff")
      .attr("stroke-width", (node) =>
        highlighted.has(node.data.id) ? 5 : relatedNodes.has(node) ? 3 : 2);
    linkSelection.attr("stroke", (link) => {
      const source = link?.source;
      const target = link?.target;
      if (!source || !target) return "#bbb";
      return relatedNodes.has(source) && relatedNodes.has(target) ? "#f48fb1" : "#bbb";
    });
  }
  \<close>
  The two selections are the visual state: a circle per node and a path per link, each
  with the datum it is bound to and the attributes the function sets.
\<close>

record circle =
  circle_datum :: path
  circle_stroke :: string
  circle_stroke_width :: nat

record link =
  link_source :: "path option"
  link_target :: "path option"

record linkPath =
  linkPath_datum :: "link option"
  linkPath_stroke :: string

definition has_id :: "string set \<Rightarrow> hnode \<Rightarrow> path \<Rightarrow> bool" where
  "has_id highlighted rootNode node =
     (case node_id rootNode node of None \<Rightarrow> False | Some i \<Rightarrow> i \<in> highlighted)"

definition relatedNodes :: "string set \<Rightarrow> hnode \<Rightarrow> path set" where
  "relatedNodes highlighted rootNode =
     fold (\<lambda>node related.
             if has_id highlighted rootNode node
             then related \<union> {node} \<union> set (ancestors node) \<union> set (node_descendants rootNode node)
             else related)
          (descendants rootNode) {}"

definition applyHighlights ::
  "circle list \<Rightarrow> linkPath list \<Rightarrow> string list option \<Rightarrow> hnode \<Rightarrow> circle list \<times> linkPath list" where
  "applyHighlights nodeSelection linkSelection highlightedIds rootNode =
     (case highlightedIds of
        None \<Rightarrow> (nodeSelection, linkSelection)
      | Some ids \<Rightarrow>
          if ids = [] then (nodeSelection, linkSelection)
          else
            (let highlighted = set ids;
                 related = relatedNodes highlighted rootNode
             in (map (\<lambda>c. c\<lparr>circle_stroke :=
                               (if has_id highlighted rootNode (circle_datum c) then ''#e53935''
                                else if circle_datum c \<in> related then ''#f48fb1'' else ''#fff''),
                             circle_stroke_width :=
                               (if has_id highlighted rootNode (circle_datum c) then 5
                                else if circle_datum c \<in> related then 3 else 2)\<rparr>)
                     nodeSelection,
                 map (\<lambda>l. l\<lparr>linkPath_stroke :=
                               (case linkPath_datum l of
                                  None \<Rightarrow> ''#bbb''
                                | Some d \<Rightarrow>
                                    (case (link_source d, link_target d) of
                                       (Some source, Some target) \<Rightarrow>
                                         if source \<in> related \<and> target \<in> related
                                         then ''#f48fb1'' else ''#bbb''
                                     | _ \<Rightarrow> ''#bbb''))\<rparr>)
                     linkSelection)))"

section \<open>The bounding box and the view size of the initial fit\<close>

text \<open>
  \<^verbatim>\<open>
  const xExtent = d3.extent(rootNode.descendants(), (node) => node.x);
  const yExtent = d3.extent(rootNode.descendants(), (node) => node.y);
  const margin = { top: 100, right: 200, bottom: 200, left: 200 };
  const viewWidth = xExtent[1] - xExtent[0] + margin.left + margin.right;
  const viewHeight = yExtent[1] - yExtent[0] + margin.top + margin.bottom;
  \<close>
  \<open>d3.extent\<close> passes over \<open>undefined\<close> and \<open>NaN\<close> and keeps the least and the greatest
  of the other values; of no value the extent is \<open>[undefined, undefined]\<close>, here \<open>None\<close>.
\<close>

fun extent_loop :: "jsnum option list \<Rightarrow> (jsnum \<times> jsnum) option \<Rightarrow> (jsnum \<times> jsnum) option" where
  "extent_loop [] acc = acc"
| "extent_loop (v # vs) acc =
     (case v of
        None \<Rightarrow> extent_loop vs acc
      | Some a \<Rightarrow>
          (case acc of
             None \<Rightarrow> extent_loop vs (if a = NaN then None else Some (a, a))
           | Some (lo, hi) \<Rightarrow>
               extent_loop vs (Some (if jless a lo then a else lo, if jless hi a then a else hi))))"

definition extent :: "jsnum option list \<Rightarrow> (jsnum \<times> jsnum) option" where
  "extent vs = extent_loop vs None"

definition viewWidthOf :: "hnode \<Rightarrow> jsnum" where
  "viewWidthOf rootNode =
     (case extent (map node_x (descendant_nodes rootNode)) of
        None \<Rightarrow> NaN
      | Some (x0, x1) \<Rightarrow> jadd (jadd (jsub x1 x0) (Fin 200)) (Fin 200))"

definition viewHeightOf :: "hnode \<Rightarrow> jsnum" where
  "viewHeightOf rootNode =
     (case extent (map node_y (descendant_nodes rootNode)) of
        None \<Rightarrow> NaN
      | Some (y0, y1) \<Rightarrow> jadd (jadd (jsub y1 y0) (Fin 100)) (Fin 200))"

text \<open>
  \<open>treeContainer.node().getBBox()\<close> is the bounding box of what the group holds when the
  fit is computed. \<open>drawNodes\<close> has appended one circle per node,
  \<^verbatim>\<open>
  .data(rootNode.descendants()).join("circle")
  .attr("cx", (node) => node.x).attr("cy", (node) => node.y).attr("r", 25)
  \<close>
  and the box of a circle is the square of side 50 around its centre. The link paths, the
  labels and the constraint overlays are in the group too; their boxes are measured by
  the browser and are an input here (\<open>others\<close>). The box of the group is the union of
  all of them.
\<close>

definition circleBox :: "hnode \<Rightarrow> bbox" where
  "circleBox node =
     \<lparr>bbox_x = jsub (toNumber (node_x node)) (Fin 25),
      bbox_y = jsub (toNumber (node_y node)) (Fin 25),
      bbox_width = Fin 50, bbox_height = Fin 50\<rparr>"

definition unionBox :: "bbox \<Rightarrow> bbox \<Rightarrow> bbox" where
  "unionBox a b =
     (let left = Math_min (bbox_x a) (bbox_x b);
          top = Math_min (bbox_y a) (bbox_y b);
          right = Math_max (jadd (bbox_x a) (bbox_width a)) (jadd (bbox_x b) (bbox_width b));
          bottom = Math_max (jadd (bbox_y a) (bbox_height a)) (jadd (bbox_y b) (bbox_height b))
      in \<lparr>bbox_x = left, bbox_y = top,
          bbox_width = jsub right left, bbox_height = jsub bottom top\<rparr>)"

definition getBBox :: "hnode \<Rightarrow> bbox list \<Rightarrow> bbox" where
  "getBBox rootNode others =
     (case map circleBox (descendant_nodes rootNode) @ others of
        [] \<Rightarrow> \<lparr>bbox_x = Fin 0, bbox_y = Fin 0, bbox_width = Fin 0, bbox_height = Fin 0\<rparr>
      | b # bs \<Rightarrow> fold (\<lambda>c acc. unionBox acc c) bs b)"

text \<open>The fit transform the effect computes for a tree.\<close>

definition initialFit :: "hnode \<Rightarrow> bbox list \<Rightarrow> transform" where
  "initialFit rootNode others =
     fitTransform (viewWidthOf rootNode) (viewHeightOf rootNode) (getBBox rootNode others)"

text \<open>
  The trees and the measured boxes the statements are about: after the layout every node
  has finite coordinates, and a measured box is finite with extents that are not negative.
\<close>

definition finiteCoord :: "jsnum option \<Rightarrow> bool" where
  "finiteCoord v = (case v of Some (Fin a) \<Rightarrow> True | _ \<Rightarrow> False)"

definition laid_out :: "hnode \<Rightarrow> bool" where
  "laid_out rootNode =
     list_all (\<lambda>node. finiteCoord (node_x node) \<and> finiteCoord (node_y node))
       (descendant_nodes rootNode)"

definition measured :: "bbox \<Rightarrow> bool" where
  "measured box =
     (case (bbox_x box, bbox_y box, bbox_width box, bbox_height box) of
        (Fin a, Fin b, Fin w, Fin h) \<Rightarrow> 0 \<le> w \<and> 0 \<le> h
      | _ \<Rightarrow> False)"

text \<open>A finite box whose width and height are at least 50, the side of a circle's box.\<close>

definition big_box :: "bbox \<Rightarrow> bool" where
  "big_box box =
     (case (bbox_x box, bbox_y box, bbox_width box, bbox_height box) of
        (Fin a, Fin b, Fin w, Fin h) \<Rightarrow> 50 \<le> w \<and> 50 \<le> h
      | _ \<Rightarrow> False)"

section \<open>Notions used in the statements about buildHierarchy\<close>

text \<open>The features held by the nodes of a tree, the root first.\<close>

fun tree_features :: "hnode \<Rightarrow> feature list" where
  "tree_features (HNode d x y cs) = d # concat (map tree_features cs)"

text \<open>
  The data object \<open>createNodes\<close> stores for a feature, the ids \<open>linkChildren\<close>
  pushes to the data object with id \<open>k\<close>, the reference relation between stored data
  objects, and the parent id of the feature with a given id.
\<close>

definition dataOf :: "feature \<Rightarrow> string \<times> dataNode" where
  "dataOf f = (feature_id f, (f, []))"

definition children_of :: "feature list \<Rightarrow> string \<Rightarrow> string list" where
  "children_of fs k =
     map feature_id (filter (\<lambda>g. truthy (feature_parent g) \<and> the (feature_parent g) = k) fs)"

definition child :: "(string \<rightharpoonup> dataNode) \<Rightarrow> string \<Rightarrow> string \<Rightarrow> bool" where
  "child m p c = (\<exists>pf cs. m p = Some (pf, cs) \<and> c \<in> set cs)"

definition parent_id :: "feature list \<Rightarrow> string \<Rightarrow> string option" where
  "parent_id fs c =
     (case find (\<lambda>g. feature_id g = c) fs of
        None \<Rightarrow> None
      | Some g \<Rightarrow> if truthy (feature_parent g) then feature_parent g else None)"

text \<open>
  The feature lists the statements are about: ids are unique (the invariant of the
  data model), no id is \<open>__proto__\<close>, and no parent names a member inherited from
  \<open>Object.prototype\<close> unless a feature has that id.
\<close>

definition well_formed :: "feature list \<Rightarrow> bool" where
  "well_formed fs =
     (distinct (map feature_id fs) \<and> ''__proto__'' \<notin> feature_id ` set fs \<and>
      (\<forall>f \<in> set fs. truthy (feature_parent f) \<longrightarrow>
         the (feature_parent f) \<in> feature_id ` set fs \<or>
         the (feature_parent f) \<notin> set objectPrototypeKeys))"

section \<open>Example inputs\<close>

text \<open>
  A feature with the given id and parent, and the tree of the specification's scenario
  (a root with the children \<open>a\<close> and \<open>b\<close>) with a grandchild \<open>c\<close> below \<open>a\<close>, laid out
  with node size \<open>(140, 200)\<close>; and a root with its only child straight below it.
\<close>

definition mkFeature :: "string \<Rightarrow> string option \<Rightarrow> feature" where
  "mkFeature i p =
     \<lparr>feature_id = i, feature_label = None, feature_type = None, feature_parent = p\<rparr>"

definition example_tree :: hnode where
  "example_tree =
     HNode (mkFeature ''root'' None) (Some (Fin 0)) (Some (Fin 0))
       [HNode (mkFeature ''a'' (Some ''root'')) (Some (Fin (- 70))) (Some (Fin 200))
          [HNode (mkFeature ''c'' (Some ''a'')) (Some (Fin (- 70))) (Some (Fin 400)) []],
        HNode (mkFeature ''b'' (Some ''root'')) (Some (Fin 70)) (Some (Fin 200)) []]"

definition example_chain :: hnode where
  "example_chain =
     HNode (mkFeature ''root'' None) (Some (Fin 0)) (Some (Fin 0))
       [HNode (mkFeature ''a'' (Some ''root'')) (Some (Fin 0)) (Some (Fin 200)) []]"

text \<open>The tree of a single feature, laid out: the root at the origin.\<close>

definition example_single :: hnode where
  "example_single = HNode (mkFeature ''root'' None) (Some (Fin 0)) (Some (Fin 0)) []"

text \<open>
  The selections of the scenario's tree before any highlight: a circle per node, in the
  order of \<open>descendants()\<close>, and a path per link.
\<close>

definition example_circles :: "circle list" where
  "example_circles =
     [\<lparr>circle_datum = [], circle_stroke = ''#fff'', circle_stroke_width = 2\<rparr>,
      \<lparr>circle_datum = [0], circle_stroke = ''#fff'', circle_stroke_width = 2\<rparr>,
      \<lparr>circle_datum = [1], circle_stroke = ''#fff'', circle_stroke_width = 2\<rparr>,
      \<lparr>circle_datum = [0, 0], circle_stroke = ''#fff'', circle_stroke_width = 2\<rparr>]"

definition example_links :: "linkPath list" where
  "example_links =
     [\<lparr>linkPath_datum = Some \<lparr>link_source = Some [], link_target = Some [0]\<rparr>,
        linkPath_stroke = ''#bbb''\<rparr>,
      \<lparr>linkPath_datum = Some \<lparr>link_source = Some [], link_target = Some [1]\<rparr>,
        linkPath_stroke = ''#bbb''\<rparr>,
      \<lparr>linkPath_datum = Some \<lparr>link_source = Some [0], link_target = Some [0, 0]\<rparr>,
        linkPath_stroke = ''#bbb''\<rparr>]"

section \<open>Properties of core/search.js\<close>

lemma startsWith_prefix: "startsWith s q = prefix q s"
  by (induction s q rule: startsWith.induct) auto

lemma includes_str_sublist: "includes_str s q = sublist q s"
  by (induction s) (auto simp: startsWith_prefix sublist_Cons_right)

lemma of_char_lt_256: "(of_char c :: nat) < 256"
  by (cases c) (simp add: of_char_def)

lemma isWhiteSpace_lowerChar: "isWhiteSpace (lowerChar c) = isWhiteSpace c"
proof -
  have "(of_char c :: nat) < 256" by (rule of_char_lt_256)
  then show ?thesis
    unfolding isWhiteSpace_def lowerChar_def Let_def
    by auto
qed

lemma dropWhile_ws_lower:
  "dropWhile isWhiteSpace (map lowerChar s) = map lowerChar (dropWhile isWhiteSpace s)"
  by (induction s) (simp_all add: isWhiteSpace_lowerChar)

lemma trim_toLowerCase: "trim (toLowerCase s) = toLowerCase (trim s)"
proof -
  have "dropWhile isWhiteSpace (rev (map lowerChar (dropWhile isWhiteSpace s)))
        = map lowerChar (dropWhile isWhiteSpace (rev (dropWhile isWhiteSpace s)))"
    using dropWhile_ws_lower [of "rev (dropWhile isWhiteSpace s)"] by (simp add: rev_map)
  then show ?thesis
    by (simp add: trim_def toLowerCase_def dropWhile_ws_lower rev_map)
qed

lemma trim_decomposition:
  "\<exists>l r. s = l @ trim s @ r \<and> list_all isWhiteSpace l \<and> list_all isWhiteSpace r"
proof -
  let ?l = "takeWhile isWhiteSpace s"
  let ?m = "dropWhile isWhiteSpace s"
  let ?r = "rev (takeWhile isWhiteSpace (rev ?m))"
  have "?m = trim s @ ?r"
    unfolding trim_def
    by (metis rev_append rev_rev_ident takeWhile_dropWhile_id)
  then have "s = ?l @ trim s @ ?r"
    by (metis takeWhile_dropWhile_id)
  moreover have "list_all isWhiteSpace ?l"
    by (simp add: list_all_iff) (meson set_takeWhileD)
  moreover have "list_all isWhiteSpace ?r"
    by (simp add: list_all_iff) (meson set_takeWhileD)
  ultimately show ?thesis by blast
qed

lemma dropWhile_hd: "dropWhile P xs \<noteq> [] \<Longrightarrow> \<not> P (hd (dropWhile P xs))"
  by (metis hd_dropWhile)

lemma trim_ends:
  assumes "trim s \<noteq> []"
  shows "\<not> isWhiteSpace (hd (trim s)) \<and> \<not> isWhiteSpace (last (trim s))"
proof -
  let ?m = "dropWhile isWhiteSpace s"
  let ?t = "dropWhile isWhiteSpace (rev ?m)"
  from assms have t: "?t \<noteq> []" by (simp add: trim_def)
  then have "\<not> isWhiteSpace (hd ?t)" by (rule dropWhile_hd)
  then have l: "\<not> isWhiteSpace (last (trim s))"
    using t by (simp add: trim_def last_rev)
  from t have m: "?m \<noteq> []" by (cases "?m = []") simp_all
  then have hm: "\<not> isWhiteSpace (hd ?m)" by (rule dropWhile_hd)
  have "\<exists>r. ?m = trim s @ r"
    unfolding trim_def by (metis rev_append rev_rev_ident takeWhile_dropWhile_id)
  then obtain r where "?m = trim s @ r" ..
  with assms have "hd ?m = hd (trim s)" by (metis hd_append2)
  with hm l show ?thesis by simp
qed

lemma labelOrId_cases:
  "labelOrId f = (case feature_label f of None \<Rightarrow> feature_id f
                  | Some l \<Rightarrow> if l = [] then feature_id f else l)"
  by (simp add: labelOrId_def truthy_def split: option.splits)

lemma toLowerCase_Nil_iff: "(toLowerCase s = []) = (s = [])"
  by (simp add: toLowerCase_def)

lemma keyword_or_empty:
  "(if truthy kw then the kw else []) = (case kw of None \<Rightarrow> [] | Some s \<Rightarrow> s)"
  by (simp add: truthy_def split: option.splits)

lemma searchFeatures_unfold:
  "searchFeatures fs kw =
     (let k = (case kw of None \<Rightarrow> [] | Some s \<Rightarrow> s) in
      if trim k = [] then []
      else map feature_id
             (filter (\<lambda>f. sublist (toLowerCase (trim k))
                        (toLowerCase (case feature_label f of None \<Rightarrow> feature_id f
                                      | Some l \<Rightarrow> if l = [] then feature_id f else l)))
                fs))"
  unfolding searchFeatures_def keyword_or_empty Let_def toLowerCase_Nil_iff
    includes_str_sublist labelOrId_cases
  by simp

lemma searchFeatures_same_lowercase:
  assumes "toLowerCase k1 = toLowerCase k2"
  shows "searchFeatures fs (Some k1) = searchFeatures fs (Some k2)"
proof -
  have "toLowerCase (trim k1) = toLowerCase (trim k2)"
    using assms by (simp add: trim_toLowerCase [symmetric])
  then show ?thesis
    by (simp add: searchFeatures_def keyword_or_empty)
qed

text \<open>
  C3. \<open>searchFeatures\<close> trims and lowercases the query; a query that is empty after
  trimming gives the empty result; otherwise the result is, in input order, the id of
  every feature whose lowercased label (its id when the label is empty or absent)
  contains the lowercased query as a substring. In particular the search of an empty
  list is empty, two queries that differ only in case give the same result, and the
  trimmed query is the query without its leading and trailing white space.
\<close>

theorem searchFeatures_correct:
  "searchFeatures fs kw =
     (let k = (case kw of None \<Rightarrow> [] | Some s \<Rightarrow> s) in
      if trim k = [] then []
      else map feature_id
             (filter (\<lambda>f. sublist (toLowerCase (trim k))
                        (toLowerCase (case feature_label f of None \<Rightarrow> feature_id f
                                      | Some l \<Rightarrow> if l = [] then feature_id f else l)))
                fs))
   \<and> searchFeatures [] kw = []
   \<and> searchFeatures fs None = []
   \<and> searchFeatures fs (Some []) = []
   \<and> (toLowerCase k1 = toLowerCase k2 \<longrightarrow>
        searchFeatures fs (Some k1) = searchFeatures fs (Some k2))
   \<and> (\<exists>l r. k = l @ trim k @ r \<and> list_all isWhiteSpace l \<and> list_all isWhiteSpace r)
   \<and> (trim k \<noteq> [] \<longrightarrow> \<not> isWhiteSpace (hd (trim k)) \<and> \<not> isWhiteSpace (last (trim k)))"
proof (intro conjI impI)
  show "searchFeatures fs kw =
     (let k = (case kw of None \<Rightarrow> [] | Some s \<Rightarrow> s) in
      if trim k = [] then []
      else map feature_id
             (filter (\<lambda>f. sublist (toLowerCase (trim k))
                        (toLowerCase (case feature_label f of None \<Rightarrow> feature_id f
                                      | Some l \<Rightarrow> if l = [] then feature_id f else l)))
                fs))"
    by (rule searchFeatures_unfold)
  show "searchFeatures [] kw = []"
    by (simp add: searchFeatures_def Let_def)
  show "searchFeatures fs None = []"
    by (simp add: searchFeatures_unfold trim_def)
  show "searchFeatures fs (Some []) = []"
    by (simp add: searchFeatures_unfold trim_def)
  show "searchFeatures fs (Some k1) = searchFeatures fs (Some k2)"
    if "toLowerCase k1 = toLowerCase k2"
    using that by (rule searchFeatures_same_lowercase)
  show "\<exists>l r. k = l @ trim k @ r \<and> list_all isWhiteSpace l \<and> list_all isWhiteSpace r"
    by (rule trim_decomposition)
  show "\<not> isWhiteSpace (hd (trim k))" if "trim k \<noteq> []"
    using trim_ends [OF that] by simp
  show "\<not> isWhiteSpace (last (trim k))" if "trim k \<noteq> []"
    using trim_ends [OF that] by simp
qed

text \<open>
  The scenario of the specification: \<open>search([{id:"a",label:"Hello"}], "HELLO") == ["a"]\<close>,
  with white space around the query.
\<close>

theorem searchFeatures_correct_witness:
  "toLowerCase ''HELLO'' = toLowerCase ''hello''
   \<and> searchFeatures [\<lparr>feature_id = ''a'', feature_label = Some ''Hello'',
         feature_type = None, feature_parent = None\<rparr>] (Some ''HELLO'')
     = searchFeatures [\<lparr>feature_id = ''a'', feature_label = Some ''Hello'',
         feature_type = None, feature_parent = None\<rparr>] (Some ''hello'')
   \<and> searchFeatures [\<lparr>feature_id = ''a'', feature_label = Some ''Hello'',
         feature_type = None, feature_parent = None\<rparr>] (Some '' HELLO '') = [''a'']
   \<and> trim '' HELLO '' = ''HELLO''
   \<and> \<not> isWhiteSpace (hd (trim '' HELLO ''))"
proof -
  have low: "toLowerCase ''HELLO'' = toLowerCase ''hello''"
    by code_simp
  have tr: "trim '' HELLO '' = ''HELLO''"
    by code_simp
  have ev: "searchFeatures [\<lparr>feature_id = ''a'', feature_label = Some ''Hello'',
         feature_type = None, feature_parent = None\<rparr>] (Some '' HELLO '') = [''a'']"
    by code_simp
  show ?thesis
    using low tr ev
      searchFeatures_correct [of "[\<lparr>feature_id = ''a'', feature_label = Some ''Hello'',
         feature_type = None, feature_parent = None\<rparr>]" "Some '' HELLO ''"
         "''HELLO''" "''hello''" "'' HELLO ''"]
    by simp
qed

lemma acyclic_from_step:
  assumes "acyclic_from m c" "parent_edge m c p"
  shows "acyclic_from m p"
  using assms unfolding acyclic_from_def
  by (meson converse_rtranclp_into_rtranclp)

lemma acyclic_from_not_back:
  assumes "acyclic_from m c" "parent_edge m c p"
  shows "\<not> (parent_edge m)\<^sup>*\<^sup>* p c"
  using assms unfolding acyclic_from_def
  by (meson rtranclp.rtrancl_refl rtranclp_into_tranclp2)

lemma pathToRoot_loop_chain:
  assumes "c \<noteq> []" "acyclic_from m c"
    and "V \<inter> {y. (parent_edge m)\<^sup>*\<^sup>* c y} = {}"
    and "card (fst ` set m - V) = n"
  shows "\<exists>zs cur. pathToRoot_loop m (Some c) path = Some (cur, path @ zs) \<and>
            (let ys = rev (if truthy cur then zs @ [the cur] else zs) in
              ys \<noteq> [] \<and> last ys = c \<and>
              successively (\<lambda>p c'. parent_edge m c' p) ys \<and> is_root m (hd ys))"
  using assms
proof (induction n arbitrary: c V path rule: less_induct)
  case (less n)
  show ?case
  proof (cases "map_of m c")
    case None
    then have "pathToRoot_loop m (Some c) path = Some (Some c, path @ [])"
      using less.prems(1)
      by (subst pathToRoot_loop.simps) (simp add: truthy_def map_has_def)
    moreover have "is_root m c" using None by (simp add: is_root_def parent_edge_def)
    ultimately show ?thesis using less.prems(1)
      by (intro exI[of _ "[]"] exI[of _ "Some c"]) (simp add: truthy_def)
  next
    case (Some v)
    then have step: "pathToRoot_loop m (Some c) path = pathToRoot_loop m v (path @ [c])"
      using less.prems(1)
      by (subst pathToRoot_loop.simps) (simp add: truthy_def map_has_def map_get_def)
    show ?thesis
    proof (cases "truthy v")
      case False
      then have "pathToRoot_loop m v (path @ [c]) = Some (v, path @ [c])"
        by (subst pathToRoot_loop.simps) simp
      moreover have "is_root m c"
        using Some False by (auto simp: is_root_def parent_edge_def truthy_def)
      ultimately show ?thesis using step False
        by (intro exI[of _ "[c]"] exI[of _ v]) simp
    next
      case True
      then obtain p where v: "v = Some p" and p: "p \<noteq> []"
        by (auto simp: truthy_def split: option.splits)
      have edge: "parent_edge m c p"
        using Some v p less.prems(1) by (simp add: parent_edge_def)
      have ac: "acyclic_from m p" using less.prems(2) edge by (rule acyclic_from_step)
      have cin: "c \<in> fst ` set m" using Some by (metis map_of_eq_None_iff option.distinct(1))
      have cV: "c \<notin> V" using less.prems(3) by auto
      let ?V = "insert c V"
      have sub: "{y. (parent_edge m)\<^sup>*\<^sup>* p y} \<subseteq> {y. (parent_edge m)\<^sup>*\<^sup>* c y}"
        using edge by (auto intro: converse_rtranclp_into_rtranclp)
      have "c \<notin> {y. (parent_edge m)\<^sup>*\<^sup>* p y}"
        using acyclic_from_not_back [OF less.prems(2) edge] by simp
      with sub less.prems(3) have disj: "?V \<inter> {y. (parent_edge m)\<^sup>*\<^sup>* p y} = {}"
        by auto
      have "card (fst ` set m - ?V) < card (fst ` set m - V)"
        using cin cV by (intro psubset_card_mono) auto
      then have lt: "card (fst ` set m - ?V) < n" using less.prems(4) by simp
      from less.IH [OF lt p ac disj refl, of "path @ [c]"]
      obtain zs cur where
        run: "pathToRoot_loop m (Some p) (path @ [c]) = Some (cur, (path @ [c]) @ zs)"
        and ok: "let ys = rev (if truthy cur then zs @ [the cur] else zs) in
              ys \<noteq> [] \<and> last ys = p \<and>
              successively (\<lambda>p c'. parent_edge m c' p) ys \<and> is_root m (hd ys)"
        by blast
      let ?ys = "rev (if truthy cur then zs @ [the cur] else zs)"
      from ok have ys: "?ys \<noteq> []" "last ?ys = p"
        "successively (\<lambda>p c'. parent_edge m c' p) ?ys" "is_root m (hd ?ys)"
        by (simp_all add: Let_def)
      have eq: "rev (if truthy cur then (c # zs) @ [the cur] else c # zs) = ?ys @ [c]"
        by simp
      have s': "successively (\<lambda>p c'. parent_edge m c' p) (?ys @ [c])"
        using ys edge by (simp add: successively_append_iff)
      have n': "?ys @ [c] \<noteq> []" and l': "last (?ys @ [c]) = c" by simp_all
      have h': "is_root m (hd (?ys @ [c]))" using ys(1,4) hd_append2 [of ?ys "[c]"] by metis
      have run': "pathToRoot_loop m (Some c) path = Some (cur, path @ (c # zs))"
        using step v run by simp
      show ?thesis
        apply (rule exI[of _ "c # zs"], rule exI[of _ cur])
        unfolding Let_def eq
        using run' n' l' s' h' by blast
    qed
  qed
qed

text \<open>
  C10. When the chain of parent pointers from a (non-empty) \<open>targetId\<close> is acyclic,
  \<open>pathToRoot\<close> returns: its result is the ancestor chain, root first, each element
  the parent of the next, ending in \<open>targetId\<close>.
\<close>

theorem pathToRoot_chain:
  assumes "t \<noteq> []" and "acyclic_from m t"
  shows "\<exists>ys. pathToRoot (Some t) m = Some ys \<and> ys \<noteq> [] \<and> last ys = t \<and>
           successively (\<lambda>p c. parent_edge m c p) ys \<and> is_root m (hd ys)"
proof -
  from pathToRoot_loop_chain [OF assms, of "{}" _ "[]"]
  obtain zs cur where run: "pathToRoot_loop m (Some t) [] = Some (cur, zs)"
    and ok: "let ys = rev (if truthy cur then zs @ [the cur] else zs) in
              ys \<noteq> [] \<and> last ys = t \<and>
              successively (\<lambda>p c'. parent_edge m c' p) ys \<and> is_root m (hd ys)"
    by auto
  then show ?thesis by (simp add: pathToRoot_def Let_def)
qed

lemma acyclic_from_measure:
  assumes "\<And>c p. parent_edge m c p \<Longrightarrow> f p < (f c :: nat)"
  shows "acyclic_from m t"
proof -
  have "(parent_edge m)\<^sup>+\<^sup>+ a b \<Longrightarrow> f b < f a" for a b
    by (induction rule: tranclp_induct) (auto dest: assms)
  then show ?thesis
    unfolding acyclic_from_def by (meson less_irrefl)
qed

theorem pathToRoot_chain_witness:
  "''abc'' \<noteq> [] \<and> acyclic_from [(''abc'', Some ''ab''), (''ab'', Some ''a''), (''a'', None)] ''abc''
   \<and> pathToRoot (Some ''abc'') [(''abc'', Some ''ab''), (''ab'', Some ''a''), (''a'', None)]
       = Some [''a'', ''ab'', ''abc'']
   \<and> (\<exists>ys. pathToRoot (Some ''abc'') [(''abc'', Some ''ab''), (''ab'', Some ''a''), (''a'', None)]
         = Some ys \<and> ys \<noteq> [] \<and> last ys = ''abc'')"
proof -
  let ?m = "[(''abc'', Some ''ab''), (''ab'', Some ''a''), (''a'', None)]"
  have ac: "acyclic_from ?m ''abc''"
    by (rule acyclic_from_measure [where f = length])
      (auto simp: parent_edge_def split: if_splits)
  have ne: "''abc'' \<noteq> []" by simp
  have ev: "pathToRoot (Some ''abc'') ?m = Some [''a'', ''ab'', ''abc'']"
    by (simp add: pathToRoot_def pathToRoot_loop.simps truthy_def map_has_def map_get_def)
  show ?thesis
    using ac ev pathToRoot_chain [OF ne ac] by auto
qed

text \<open>
  Without acyclicity the loop need not return: on a map where an id is its own parent it
  runs forever.
\<close>

lemma pathToRoot_loop_cycle:
  assumes "pathToRoot_loop m cur path = Some r"
  shows "m = [(''a'', Some ''a'')] \<longrightarrow> cur \<noteq> Some ''a''"
proof (rule pathToRoot_loop.raw_induct
    [where P = "\<lambda>m cur path r. m = [(''a'', Some ''a'')] \<longrightarrow> cur \<noteq> Some ''a''", OF _ assms])
  fix loop :: "parentMap \<Rightarrow> string option \<Rightarrow> string list \<Rightarrow> (string option \<times> string list) option"
  fix m cur path r
  assume IH: "\<And>m cur path r. loop m cur path = Some r \<Longrightarrow>
      m = [(''a'', Some ''a'')] \<longrightarrow> cur \<noteq> Some ''a''"
  assume run: "(if truthy cur \<and> map_has m (the cur)
      then loop m (map_get m (the cur)) (path @ [the cur]) else Some (cur, path)) = Some r"
  show "m = [(''a'', Some ''a'')] \<longrightarrow> cur \<noteq> Some ''a''"
  proof (intro impI notI)
    assume m: "m = [(''a'', Some ''a'')]" and c: "cur = Some ''a''"
    with run have "loop m (Some ''a'') (path @ [''a'']) = Some r"
      by (simp add: truthy_def map_has_def map_get_def)
    from IH [OF this] m show False by simp
  qed
qed

lemma pathToRoot_cycle_diverges: "pathToRoot (Some ''a'') [(''a'', Some ''a'')] = None"
proof (cases "pathToRoot_loop [(''a'', Some ''a'')] (Some ''a'') []")
  case None
  then show ?thesis by (simp add: pathToRoot_def)
next
  case (Some r)
  then show ?thesis using pathToRoot_loop_cycle [OF Some] by simp
qed

section \<open>Properties of the viewport transform\<close>

lemma jmul_one_left: "jmul (Fin 1) a = a"
  by (cases a) (simp_all add: inf_of_sign_def)

lemma jadd_zero_left: "jadd (Fin 0) a = a"
  by (cases a) simp_all

lemma scale_translate_identity:
  "scale (translate zoomIdentity x y) k = \<lparr>tk = k, tx = x, ty = y\<rparr>"
  by (simp add: scale_def translate_def zoomIdentity_def jmul_one_left jadd_zero_left)

lemma alignCenter_scale: "tk (currentTransform (handleAlignCenter vp)) = tk (currentTransform vp)"
  by (simp add: handleAlignCenter_def Let_def currentTransform_def scale_translate_identity
      split: option.splits bool.splits prod.splits)

lemma alignCenter_frame: "graphStateRef (handleAlignCenter vp) = graphStateRef vp"
  by (simp add: handleAlignCenter_def Let_def split: option.splits bool.splits)

lemma alignCenter_centered:
  assumes "svgSelection (graphStateRef vp) = Some r"
    "treeContainer (graphStateRef vp) = Some \<lparr>bbox_x = Fin x, bbox_y = Fin y, bbox_width = Fin w, bbox_height = Fin h\<rparr>"
    "zoomBehavior (graphStateRef vp)"
    "viewWidth (graphStateRef vp) = Fin vw" "viewHeight (graphStateRef vp) = Fin vh"
    "tk (currentTransform vp) = Fin k"
  shows "applyX (currentTransform (handleAlignCenter vp)) (Fin (x + w / 2)) = Fin (vw / 2)
       \<and> applyY (currentTransform (handleAlignCenter vp)) (Fin (y + h / 2)) = Fin (vh / 2)"
  using assms
  by (simp add: handleAlignCenter_def Let_def currentTransform_def scale_translate_identity
      applyX_def applyY_def jsub_def field_simps)

lemma fitTransform_scale: "tk (fitTransform vw vh b) = fitScale vw vh b"
  by (simp add: fitTransform_def Let_def scale_translate_identity)

text \<open>
  C8. \<open>handleAlignCenter\<close> leaves the scale of the current transform and the whole
  graph state as they are, in every state; in an initialised state with finite numbers
  the new translate puts the centre of the bounding box at the centre of the view
  (\<open>viewWidth / 2\<close>, \<open>viewHeight / 2\<close>) at that scale.
\<close>

theorem handleAlignCenter_scale_kept:
  "tk (currentTransform (handleAlignCenter vp)) = tk (currentTransform vp)
   \<and> graphStateRef (handleAlignCenter vp) = graphStateRef vp
   \<and> (svgSelection (graphStateRef vp) = Some r
        \<and> treeContainer (graphStateRef vp)
            = Some \<lparr>bbox_x = Fin x, bbox_y = Fin y, bbox_width = Fin w, bbox_height = Fin h\<rparr>
        \<and> zoomBehavior (graphStateRef vp)
        \<and> viewWidth (graphStateRef vp) = Fin vw \<and> viewHeight (graphStateRef vp) = Fin vh
        \<and> tk (currentTransform vp) = Fin k
      \<longrightarrow> currentTransform (handleAlignCenter vp)
            = \<lparr>tk = Fin k, tx = Fin ((vw - w * k) / 2 - x * k), ty = Fin ((vh - h * k) / 2 - y * k)\<rparr>
        \<and> applyX (currentTransform (handleAlignCenter vp)) (Fin (x + w / 2)) = Fin (vw / 2)
        \<and> applyY (currentTransform (handleAlignCenter vp)) (Fin (y + h / 2)) = Fin (vh / 2))"
proof (intro conjI impI)
  show "tk (currentTransform (handleAlignCenter vp)) = tk (currentTransform vp)"
    by (rule alignCenter_scale)
  show "graphStateRef (handleAlignCenter vp) = graphStateRef vp"
    by (rule alignCenter_frame)
next
  assume init: "svgSelection (graphStateRef vp) = Some r
        \<and> treeContainer (graphStateRef vp)
            = Some \<lparr>bbox_x = Fin x, bbox_y = Fin y, bbox_width = Fin w, bbox_height = Fin h\<rparr>
        \<and> zoomBehavior (graphStateRef vp)
        \<and> viewWidth (graphStateRef vp) = Fin vw \<and> viewHeight (graphStateRef vp) = Fin vh
        \<and> tk (currentTransform vp) = Fin k"
  then show "currentTransform (handleAlignCenter vp)
      = \<lparr>tk = Fin k, tx = Fin ((vw - w * k) / 2 - x * k), ty = Fin ((vh - h * k) / 2 - y * k)\<rparr>"
    by (simp add: handleAlignCenter_def Let_def currentTransform_def scale_translate_identity
        jsub_def)
  from init show "applyX (currentTransform (handleAlignCenter vp)) (Fin (x + w / 2)) = Fin (vw / 2)"
    using alignCenter_centered [of vp r x y w h vw vh k] by simp
  from init show "applyY (currentTransform (handleAlignCenter vp)) (Fin (y + h / 2)) = Fin (vh / 2)"
    using alignCenter_centered [of vp r x y w h vw vh k] by simp
qed

text \<open>
  A state zoomed to scale 2 and panned to \<open>(10, 20)\<close>, view 800 by 600, bounding box
  \<open>(-100, 0, 200, 400)\<close>: the scale stays 2, the translate becomes \<open>(400, -100)\<close>.
\<close>

theorem handleAlignCenter_scale_kept_witness:
  "currentTransform (handleAlignCenter
      \<lparr>graphStateRef =
         \<lparr>svgSelection = Some \<lparr>rect_width = Fin 800, rect_height = Fin 600\<rparr>,
          treeContainer = Some \<lparr>bbox_x = Fin (- 100), bbox_y = Fin 0,
                                 bbox_width = Fin 200, bbox_height = Fin 400\<rparr>,
          viewWidth = Fin 800, viewHeight = Fin 600, zoomBehavior = True,
          initialTransform = Some zoomIdentity\<rparr>,
       zoomRef = Some \<lparr>tk = Fin 2, tx = Fin 10, ty = Fin 20\<rparr>\<rparr>)
   = \<lparr>tk = Fin 2, tx = Fin 400, ty = Fin (- 100)\<rparr>"
  using handleAlignCenter_scale_kept [of
      "\<lparr>graphStateRef =
         \<lparr>svgSelection = Some \<lparr>rect_width = Fin 800, rect_height = Fin 600\<rparr>,
          treeContainer = Some \<lparr>bbox_x = Fin (- 100), bbox_y = Fin 0,
                                 bbox_width = Fin 200, bbox_height = Fin 400\<rparr>,
          viewWidth = Fin 800, viewHeight = Fin 600, zoomBehavior = True,
          initialTransform = Some zoomIdentity\<rparr>,
       zoomRef = Some \<lparr>tk = Fin 2, tx = Fin 10, ty = Fin 20\<rparr>\<rparr>"
      "\<lparr>rect_width = Fin 800, rect_height = Fin 600\<rparr>" "- 100" 0 200 400 800 600 2]
  by (simp add: currentTransform_def)

lemma resetZoom_fit:
  assumes "0 < vw" "0 < vh" "0 \<le> w" "0 \<le> h"
  shows "handleResetZoom (fitToView \<lparr>rect_width = Fin rw, rect_height = Fin rh\<rparr> (Fin vw) (Fin vh)
            \<lparr>bbox_x = Fin x, bbox_y = Fin y, bbox_width = Fin w, bbox_height = Fin h\<rparr>)
       = fitToView \<lparr>rect_width = Fin rw, rect_height = Fin rh\<rparr> (Fin vw) (Fin vh)
            \<lparr>bbox_x = Fin x, bbox_y = Fin y, bbox_width = Fin w, bbox_height = Fin h\<rparr>"
  using assms
  by (simp add: handleResetZoom_def fitToView_def Let_def currentTransform_def
      scale_translate_identity fitTransform_def fitScale_def Math_min_def jsub_def
      inf_of_sign_def)

lemma resetZoom_general:
  assumes "svgSelection (graphStateRef vp) = Some \<lparr>rect_width = Fin rw, rect_height = Fin rh\<rparr>"
    "zoomBehavior (graphStateRef vp)"
    "initialTransform (graphStateRef vp) = Some t0" "tk t0 = Fin k0"
    "currentTransform vp = \<lparr>tk = Fin k, tx = Fin x, ty = Fin y\<rparr>" "k \<noteq> 0"
  shows "tk (currentTransform (handleResetZoom vp)) = Fin k0"
    "applyX (currentTransform (handleResetZoom vp)) (Fin ((rw / 2 - x) / k)) = Fin (rw / 2)"
    "applyY (currentTransform (handleResetZoom vp)) (Fin ((rh / 2 - y) / k)) = Fin (rh / 2)"
    "currentTransform vp = t0 \<Longrightarrow> currentTransform (handleResetZoom vp) = currentTransform vp"
  using assms
  by (auto simp: handleResetZoom_def Let_def currentTransform_def scale_translate_identity
      jsub_def applyX_def applyY_def)

text \<open>
  C9. \<open>handleResetZoom\<close> in the state the fit leaves (current transform and initial
  transform both the fit transform) changes nothing. In general it sets the scale to the
  scale of the initial transform, and the content point shown at the centre of the
  viewport stays at the centre. Numbers are exact here, so "within floating-point
  tolerance" is equality.
\<close>

theorem handleResetZoom_after_fit:
  "(0 < vw \<and> 0 < vh \<and> 0 \<le> w \<and> 0 \<le> h \<longrightarrow>
      handleResetZoom (fitToView \<lparr>rect_width = Fin rw, rect_height = Fin rh\<rparr> (Fin vw) (Fin vh)
            \<lparr>bbox_x = Fin x, bbox_y = Fin y, bbox_width = Fin w, bbox_height = Fin h\<rparr>)
       = fitToView \<lparr>rect_width = Fin rw, rect_height = Fin rh\<rparr> (Fin vw) (Fin vh)
            \<lparr>bbox_x = Fin x, bbox_y = Fin y, bbox_width = Fin w, bbox_height = Fin h\<rparr>)
   \<and> (svgSelection (graphStateRef vp) = Some \<lparr>rect_width = Fin cw, rect_height = Fin ch\<rparr>
        \<and> zoomBehavior (graphStateRef vp)
        \<and> initialTransform (graphStateRef vp) = Some t0 \<and> tk t0 = Fin k0
        \<and> currentTransform vp = \<lparr>tk = Fin k, tx = Fin px, ty = Fin py\<rparr> \<and> k \<noteq> 0
      \<longrightarrow> tk (currentTransform (handleResetZoom vp)) = Fin k0
        \<and> applyX (currentTransform (handleResetZoom vp)) (Fin ((cw / 2 - px) / k)) = Fin (cw / 2)
        \<and> applyY (currentTransform (handleResetZoom vp)) (Fin ((ch / 2 - py) / k)) = Fin (ch / 2)
        \<and> (currentTransform vp = t0 \<longrightarrow>
             currentTransform (handleResetZoom vp) = currentTransform vp))"
  using resetZoom_fit [of vw vh w h rw rh x y] resetZoom_general [of vp cw ch t0 k0 k px py]
  by blast

text \<open>
  The scenario of the specification: a tree of one root and two children, laid out with
  node size \<open>(140, 200)\<close>, in a 1000 by 800 element; the fit and then the reset.
\<close>

theorem handleResetZoom_after_fit_witness:
  "(0::real) < 540 \<and> (0::real) < 500 \<and> (0::real) \<le> 190 \<and> (0::real) \<le> 290
   \<and> handleResetZoom (fitToView \<lparr>rect_width = Fin 1000, rect_height = Fin 800\<rparr> (Fin 540) (Fin 500)
        \<lparr>bbox_x = Fin (- 95), bbox_y = Fin (- 25), bbox_width = Fin 190, bbox_height = Fin 290\<rparr>)
     = fitToView \<lparr>rect_width = Fin 1000, rect_height = Fin 800\<rparr> (Fin 540) (Fin 500)
        \<lparr>bbox_x = Fin (- 95), bbox_y = Fin (- 25), bbox_width = Fin 190, bbox_height = Fin 290\<rparr>
   \<and> tk (currentTransform (handleResetZoom
        \<lparr>graphStateRef =
           \<lparr>svgSelection = Some \<lparr>rect_width = Fin 1000, rect_height = Fin 800\<rparr>,
            treeContainer = None, viewWidth = Fin 540, viewHeight = Fin 500,
            zoomBehavior = True,
            initialTransform = Some \<lparr>tk = Fin 1.5, tx = Fin 0, ty = Fin 0\<rparr>\<rparr>,
         zoomRef = Some \<lparr>tk = Fin 3, tx = Fin 20, ty = Fin 40\<rparr>\<rparr>)) = Fin 1.5"
  using handleResetZoom_after_fit [of 540 500 190 290 1000 800 "- 95" "- 25"
      "\<lparr>graphStateRef =
           \<lparr>svgSelection = Some \<lparr>rect_width = Fin 1000, rect_height = Fin 800\<rparr>,
            treeContainer = None, viewWidth = Fin 540, viewHeight = Fin 500,
            zoomBehavior = True,
            initialTransform = Some \<lparr>tk = Fin 1.5, tx = Fin 0, ty = Fin 0\<rparr>\<rparr>,
         zoomRef = Some \<lparr>tk = Fin 3, tx = Fin 20, ty = Fin 40\<rparr>\<rparr>"
      1000 800 "\<lparr>tk = Fin 1.5, tx = Fin 0, ty = Fin 0\<rparr>" "1.5" 3 20 40]
  by (simp add: currentTransform_def)

section \<open>Properties of the initial fit\<close>

lemma fitScale_positive:
  assumes "0 < vw" "0 < vh" "0 < w" "0 < h"
  shows "fitScale (Fin vw) (Fin vh) \<lparr>bbox_x = x, bbox_y = y, bbox_width = Fin w, bbox_height = Fin h\<rparr>
       = Fin (min (vw / w) (vh / h) * 0.8)"
  using assms by (auto simp: fitScale_def Math_min_def min_def)

lemma descendant_nodes_Cons: "\<exists>ns. descendant_nodes rootNode = rootNode # ns"
proof -
  have "descendants rootNode = [] # concat (map (level rootNode) [1..<Suc (height rootNode)])"
    unfolding descendants_def by (simp add: upt_conv_Cons del: upt_Suc)
  then show ?thesis by (simp add: descendant_nodes_def List.map_filter_def)
qed

lemma finiteCoord_iff: "finiteCoord v \<longleftrightarrow> (\<exists>a. v = Some (Fin a))"
  by (auto simp: finiteCoord_def split: option.splits jsnum.splits)

lemma measured_iff:
  "measured box \<longleftrightarrow>
     (\<exists>a b w h. box = \<lparr>bbox_x = Fin a, bbox_y = Fin b, bbox_width = Fin w, bbox_height = Fin h\<rparr>
        \<and> 0 \<le> w \<and> 0 \<le> h)"
  by (cases box) (auto simp: measured_def split: jsnum.splits)

lemma big_box_iff:
  "big_box box \<longleftrightarrow>
     (\<exists>a b w h. box = \<lparr>bbox_x = Fin a, bbox_y = Fin b, bbox_width = Fin w, bbox_height = Fin h\<rparr>
        \<and> 50 \<le> w \<and> 50 \<le> h)"
  by (cases box) (auto simp: big_box_def split: jsnum.splits)

lemma unionBox_big:
  assumes "big_box acc" "measured c"
  shows "big_box (unionBox acc c)"
proof -
  from assms obtain a b w h a' b' w' h' where
    acc: "acc = \<lparr>bbox_x = Fin a, bbox_y = Fin b, bbox_width = Fin w, bbox_height = Fin h\<rparr>"
    "50 \<le> w" "50 \<le> h"
    and c: "c = \<lparr>bbox_x = Fin a', bbox_y = Fin b', bbox_width = Fin w', bbox_height = Fin h'\<rparr>"
    "0 \<le> w'" "0 \<le> h'"
    by (auto simp: big_box_iff measured_iff)
  show ?thesis
    unfolding big_box_iff acc c unionBox_def Let_def
    using acc(2,3) c(2,3)
    by (auto simp: Math_min_def Math_max_def jsub_def)
qed

lemma fold_unionBox_big:
  assumes "big_box acc" "list_all measured cs"
  shows "big_box (fold (\<lambda>c acc. unionBox acc c) cs acc)"
  using assms by (induction cs arbitrary: acc) (auto intro: unionBox_big)

lemma circleBox_big:
  assumes "node_x node = Some (Fin a)" "node_y node = Some (Fin b)"
  shows "big_box (circleBox node)" "measured (circleBox node)"
  using assms by (auto simp: big_box_iff measured_iff circleBox_def toNumber_def jsub_def)

lemma getBBox_big:
  assumes "laid_out rootNode" "list_all measured others"
  shows "big_box (getBBox rootNode others)"
proof -
  from descendant_nodes_Cons obtain ns where ns: "descendant_nodes rootNode = rootNode # ns"
    by blast
  from assms(1) ns have r: "big_box (circleBox rootNode)"
    and rest: "list_all measured (map circleBox ns)"
    by (auto simp: laid_out_def list_all_iff finiteCoord_iff intro: circleBox_big)
  from rest assms(2) have "list_all measured (map circleBox ns @ others)" by simp
  from fold_unionBox_big [OF r this] ns show ?thesis by (simp add: getBBox_def)
qed

lemma extent_loop_finite:
  assumes "list_all (\<lambda>v. \<exists>a. v = Some (Fin a)) vs" "lo \<le> hi"
  shows "\<exists>lo' hi'. extent_loop vs (Some (Fin lo, Fin hi)) = Some (Fin lo', Fin hi') \<and> lo' \<le> hi'"
  using assms
proof (induction vs arbitrary: lo hi)
  case Nil
  then show ?case by simp
next
  case (Cons v vs)
  then obtain a where v: "v = Some (Fin a)" by auto
  have "extent_loop (v # vs) (Some (Fin lo, Fin hi))
      = extent_loop vs (Some (Fin (min a lo), Fin (max hi a)))"
    unfolding v by (auto simp: min_def max_def)
  moreover have "min a lo \<le> max hi a" using Cons.prems(2) by auto
  ultimately show ?case using Cons.IH [of "min a lo" "max hi a"] Cons.prems(1) by simp
qed

lemma extent_finite:
  assumes "list_all (\<lambda>v. \<exists>a. v = Some (Fin a)) (v # vs)"
  shows "\<exists>lo hi. extent (v # vs) = Some (Fin lo, Fin hi) \<and> lo \<le> hi"
proof -
  from assms obtain a where v: "v = Some (Fin a)" and vs: "list_all (\<lambda>v. \<exists>a. v = Some (Fin a)) vs"
    by auto
  have "extent (v # vs) = extent_loop vs (Some (Fin a, Fin a))"
    by (simp add: extent_def v)
  with extent_loop_finite [OF vs, of a a] show ?thesis by simp
qed

lemma viewSize_finite:
  assumes "laid_out rootNode"
  shows "\<exists>vw vh. viewWidthOf rootNode = Fin vw \<and> 400 \<le> vw
            \<and> viewHeightOf rootNode = Fin vh \<and> 300 \<le> vh"
proof -
  from descendant_nodes_Cons obtain ns where ns: "descendant_nodes rootNode = rootNode # ns"
    by blast
  from assms ns have "list_all (\<lambda>v. \<exists>a. v = Some (Fin a)) (node_x rootNode # map node_x ns)"
    and "list_all (\<lambda>v. \<exists>a. v = Some (Fin a)) (node_y rootNode # map node_y ns)"
    by (auto simp: laid_out_def list_all_iff finiteCoord_iff)
  from extent_finite [OF this(1)] extent_finite [OF this(2)]
  obtain x0 x1 y0 y1 where
    "extent (node_x rootNode # map node_x ns) = Some (Fin x0, Fin x1)" "x0 \<le> x1"
    "extent (node_y rootNode # map node_y ns) = Some (Fin y0, Fin y1)" "y0 \<le> y1"
    by blast
  then show ?thesis
    by (simp add: viewWidthOf_def viewHeightOf_def ns jsub_def)
qed

text \<open>
  C2, as stated, fails: the bounding box of a single-node tree is not degenerate and its
  fit scale is not a fallback 1. The group holds the circle of the node, so the box is
  at least the square \<open>(-25, -25, 50, 50)\<close>; in the view of 400 by 300 that the margins
  give, the scale is \<open>min(400 / 50, 300 / 50) * 0.8 = 4.8\<close>, and \<open>240 / 83\<close> when a label
  box \<open>(-16, 43, 32, 15)\<close> below the circle is part of the group.
\<close>

theorem initialFit_single_node_counterexample:
  "getBBox example_single []
     = \<lparr>bbox_x = Fin (- 25), bbox_y = Fin (- 25), bbox_width = Fin 50, bbox_height = Fin 50\<rparr>
   \<and> viewWidthOf example_single = Fin 400 \<and> viewHeightOf example_single = Fin 300
   \<and> tk (initialFit example_single []) = Fin 4.8
   \<and> tk (initialFit example_single []) \<noteq> Fin 1
   \<and> tk (initialFit example_single
          [\<lparr>bbox_x = Fin (- 16), bbox_y = Fin 43, bbox_width = Fin 32, bbox_height = Fin 15\<rparr>])
       = Fin (240 / 83)
   \<and> tk (initialFit example_single
          [\<lparr>bbox_x = Fin (- 16), bbox_y = Fin 43, bbox_width = Fin 32, bbox_height = Fin 15\<rparr>])
       \<noteq> Fin 1"
  by code_simp

text \<open>
  C2, amended. For every laid-out tree, a single-node tree included, the bounding box the
  fit computation reads is not degenerate: the group holds a circle of radius 25 per
  node, so its width and height are at least 50 (whatever the boxes of the labels and
  paths are), and the view is at least 400 by 300. The computation has no guard against
  a division by zero and no fallback to 1: the scale of the fit transform is
  \<open>min(viewWidth / width, viewHeight / height) * 0.8\<close>, a finite positive number.
\<close>

theorem initialFit_scale:
  assumes "laid_out rootNode" and "list_all measured others"
  shows "\<exists>w h vw vh.
           bbox_width (getBBox rootNode others) = Fin w \<and> 50 \<le> w
         \<and> bbox_height (getBBox rootNode others) = Fin h \<and> 50 \<le> h
         \<and> viewWidthOf rootNode = Fin vw \<and> 400 \<le> vw
         \<and> viewHeightOf rootNode = Fin vh \<and> 300 \<le> vh
         \<and> tk (initialFit rootNode others) = Fin (min (vw / w) (vh / h) * 0.8)
         \<and> 0 < min (vw / w) (vh / h) * 0.8"
proof -
  from getBBox_big [OF assms] obtain a b w h where
    box: "getBBox rootNode others
        = \<lparr>bbox_x = Fin a, bbox_y = Fin b, bbox_width = Fin w, bbox_height = Fin h\<rparr>"
    and w: "50 \<le> w" and h: "50 \<le> h"
    by (auto simp: big_box_iff)
  from viewSize_finite [OF assms(1)] obtain vw vh where
    v: "viewWidthOf rootNode = Fin vw" "400 \<le> vw" "viewHeightOf rootNode = Fin vh" "300 \<le> vh"
    by blast
  have "tk (initialFit rootNode others) = Fin (min (vw / w) (vh / h) * 0.8)"
    using v w h by (simp add: initialFit_def fitTransform_scale box fitScale_positive)
  moreover have "0 < min (vw / w) (vh / h) * 0.8" using v w h by simp
  ultimately show ?thesis using box w h v by auto
qed


text \<open>
  The scenario's tree with the label box of the root above its circle: the box is 190
  by 483, the view 540 by 700.
\<close>

theorem initialFit_scale_witness:
  "laid_out example_tree
   \<and> list_all measured
        [\<lparr>bbox_x = Fin (- 16), bbox_y = Fin (- 58), bbox_width = Fin 32, bbox_height = Fin 15\<rparr>]
   \<and> bbox_width (getBBox example_tree
        [\<lparr>bbox_x = Fin (- 16), bbox_y = Fin (- 58), bbox_width = Fin 32, bbox_height = Fin 15\<rparr>])
       = Fin 190
   \<and> bbox_height (getBBox example_tree
        [\<lparr>bbox_x = Fin (- 16), bbox_y = Fin (- 58), bbox_width = Fin 32, bbox_height = Fin 15\<rparr>])
       = Fin 483
   \<and> viewWidthOf example_tree = Fin 540 \<and> viewHeightOf example_tree = Fin 700
   \<and> tk (initialFit example_tree
        [\<lparr>bbox_x = Fin (- 16), bbox_y = Fin (- 58), bbox_width = Fin 32, bbox_height = Fin 15\<rparr>])
       = Fin (min (540 / 190) (700 / 483) * 0.8)"
proof -
  let ?others =
    "[\<lparr>bbox_x = Fin (- 16), bbox_y = Fin (- 58), bbox_width = Fin 32, bbox_height = Fin 15\<rparr>]"
  have lo: "laid_out example_tree" by code_simp
  have ms: "list_all measured ?others" by code_simp
  have bw: "bbox_width (getBBox example_tree ?others) = Fin 190"
    and bh: "bbox_height (getBBox example_tree ?others) = Fin 483"
    and vw: "viewWidthOf example_tree = Fin 540"
    and vh: "viewHeightOf example_tree = Fin 700"
    by code_simp+
  from initialFit_scale [OF lo ms] obtain w h vw' vh' where
    "bbox_width (getBBox example_tree ?others) = Fin w"
    "bbox_height (getBBox example_tree ?others) = Fin h"
    "viewWidthOf example_tree = Fin vw'" "viewHeightOf example_tree = Fin vh'"
    "tk (initialFit example_tree ?others) = Fin (min (vw' / w) (vh' / h) * 0.8)"
    by blast
  with bw bh vw vh
  have "tk (initialFit example_tree ?others) = Fin (min (540 / 190) (700 / 483) * 0.8)"
    by simp
  with lo ms bw bh vw vh show ?thesis by (simp only: simp_thms)
qed

section \<open>Properties of applyHighlights\<close>

declare ancestors.simps [simp del]

lemma set_level_Suc:
  "set (level (HNode d x y cs) (Suc n)) = {i # q | i q. i < length cs \<and> q \<in> set (level (cs ! i) n)}"
proof -
  have "set (level (HNode d x y cs) (Suc n))
      = (\<Union>(i, c) \<in> set (enumerate 0 cs). (#) i ` set (level c n))"
    by (auto simp: case_prod_unfold)
  also have "\<dots> = {i # q | i q. i < length cs \<and> q \<in> set (level (cs ! i) n)}"
  proof (intro set_eqI iffI)
    fix p assume "p \<in> (\<Union>(i, c) \<in> set (enumerate 0 cs). (#) i ` set (level c n))"
    then show "p \<in> {i # q | i q. i < length cs \<and> q \<in> set (level (cs ! i) n)}"
      by (auto simp: in_set_enumerate_eq)
  next
    fix p assume "p \<in> {i # q | i q. i < length cs \<and> q \<in> set (level (cs ! i) n)}"
    then obtain i q where p: "p = i # q" "i < length cs" "q \<in> set (level (cs ! i) n)"
      by blast
    then have "(i, cs ! i) \<in> set (enumerate 0 cs)" by (simp add: in_set_enumerate_eq)
    with p show "p \<in> (\<Union>(i, c) \<in> set (enumerate 0 cs). (#) i ` set (level c n))"
      by (intro UN_I [of "(i, cs ! i)"]) auto
  qed
  finally show ?thesis .
qed

lemma level_iff: "p \<in> set (level t n) \<longleftrightarrow> subtree t p \<noteq> None \<and> length p = n"
proof (induction t n arbitrary: p rule: level.induct)
  case (1 t)
  show ?case by (cases p; cases t) auto
next
  case (2 d x y cs n)
  show ?case
  proof (cases p)
    case Nil
    then show ?thesis by auto
  next
    case (Cons i q)
    have "p \<in> set (level (HNode d x y cs) (Suc n))
        \<longleftrightarrow> (i < length cs \<and> q \<in> set (level (cs ! i) n))"
      using Cons by (simp only: set_level_Suc) auto
    also have "\<dots> \<longleftrightarrow> (i < length cs \<and> subtree (cs ! i) q \<noteq> None \<and> length q = n)"
      using 2 [of "(i, cs ! i)" i "cs ! i" q] by (auto simp: in_set_enumerate_eq)
    finally show ?thesis using Cons by auto
  qed
qed

lemma fold_max_ge: "a \<le> fold max xs (a::nat)"
  by (induction xs arbitrary: a) (auto intro: order_trans [OF max.cobounded2])

lemma fold_max_mem: "x \<in> set xs \<Longrightarrow> x \<le> fold max xs (a::nat)"
proof (induction xs arbitrary: a)
  case Nil
  then show ?case by simp
next
  case (Cons y ys)
  show ?case
  proof (cases "x = y")
    case True
    have "max y a \<le> fold max ys (max y a)" by (rule fold_max_ge)
    then show ?thesis using True by simp
  next
    case False
    with Cons show ?thesis by simp
  qed
qed

lemma subtree_height: "subtree t p \<noteq> None \<Longrightarrow> length p \<le> height t"
proof (induction t p rule: subtree.induct)
  case (1 t)
  then show ?case by simp
next
  case (2 d x y cs i p)
  then have i: "i < length cs" and s: "subtree (cs ! i) p \<noteq> None"
    by (auto split: if_splits)
  from 2 i s have "length p \<le> height (cs ! i)" by simp
  also have "height (cs ! i) \<le> fold max (map height cs) 0"
    using i by (intro fold_max_mem) simp
  finally show ?case using i by auto
qed

lemma set_descendants: "set (descendants t) = {p. subtree t p \<noteq> None}"
proof -
  have "p \<in> set (descendants t) \<longleftrightarrow> subtree t p \<noteq> None" for p
  proof
    assume "p \<in> set (descendants t)"
    then show "subtree t p \<noteq> None" by (auto simp: descendants_def level_iff)
  next
    assume v: "subtree t p \<noteq> None"
    then have "length p < Suc (height t)" using subtree_height [OF v] by simp
    moreover have "p \<in> set (level t (length p))" using v by (simp add: level_iff)
    ultimately have "\<exists>n \<in> set [0..<Suc (height t)]. p \<in> set (level t n)"
      by (metis atLeastLessThan_iff le0 set_upt)
    then show "p \<in> set (descendants t)"
      unfolding descendants_def by (simp only: set_concat set_map) blast
  qed
  then show ?thesis by blast
qed

lemma set_ancestors: "set (ancestors p) = {q. prefix q p}"
proof (induction p rule: ancestors.induct)
  case (1 p)
  show ?case
  proof (cases "p = []")
    case True
    then show ?thesis by (subst ancestors.simps) auto
  next
    case False
    then have p: "p = butlast p @ [last p]" by simp
    have "set (ancestors p) = insert p (set (ancestors (butlast p)))"
      using False by (subst ancestors.simps) simp
    also have "\<dots> = insert p {q. prefix q (butlast p)}" using 1 False by simp
    also have "\<dots> = {q. prefix q p}"
      using prefix_snoc [of _ "butlast p" "last p"] p by auto
    finally show ?thesis .
  qed
qed

lemma subtree_append:
  "subtree t (p @ q) = (case subtree t p of None \<Rightarrow> None | Some s \<Rightarrow> subtree s q)"
  by (induction t p rule: subtree.induct) auto

lemma set_node_descendants:
  "set (node_descendants t p) = {q. prefix p q \<and> subtree t q \<noteq> None}"
proof (cases "subtree t p")
  case None
  then have "subtree t (p @ r) = None" for r by (simp add: subtree_append)
  then have "{q. prefix p q \<and> subtree t q \<noteq> None} = {}" by (auto simp: prefix_def)
  with None show ?thesis by (simp add: node_descendants_def)
next
  case (Some s)
  then have "subtree t (p @ r) = subtree s r" for r by (simp add: subtree_append)
  then have "{q. prefix p q \<and> subtree t q \<noteq> None} = (@) p ` {r. subtree s r \<noteq> None}"
    by (auto simp: prefix_def)
  with Some show ?thesis by (simp add: node_descendants_def set_descendants)
qed

lemma fold_related:
  "fold (\<lambda>node related. if P node then related \<union> {node} \<union> A node \<union> D node else related) xs R0
     = R0 \<union> (\<Union>m \<in> {m \<in> set xs. P m}. {m} \<union> A m \<union> D m)"
  by (induction xs arbitrary: R0) auto

lemma relatedNodes_eq:
  "relatedNodes H t =
     (\<Union>m \<in> {m. subtree t m \<noteq> None \<and> has_id H t m}.
        {q. prefix q m} \<union> {q. prefix m q \<and> subtree t q \<noteq> None})"
proof -
  have "relatedNodes H t =
      (\<Union>m \<in> {m \<in> set (descendants t). has_id H t m}.
         {m} \<union> set (ancestors m) \<union> set (node_descendants t m))"
    unfolding relatedNodes_def
    by (simp only: fold_related) simp
  then show ?thesis
    by (auto simp: set_descendants set_ancestors set_node_descendants)
qed

text \<open>
  What \<open>applyHighlights\<close> does with a non-empty list of ids: every circle and every
  link path gets the stroke that the highlighted ids and the closure \<open>relatedNodes\<close>
  decide.
\<close>

lemma applyHighlights_nonempty:
  assumes "ids \<noteq> []"
  shows "applyHighlights nodeSelection linkSelection (Some ids) rootNode =
     (map (\<lambda>c. c\<lparr>circle_stroke :=
                    (if has_id (set ids) rootNode (circle_datum c) then ''#e53935''
                     else if circle_datum c \<in> relatedNodes (set ids) rootNode then ''#f48fb1''
                     else ''#fff''),
                  circle_stroke_width :=
                    (if has_id (set ids) rootNode (circle_datum c) then 5
                     else if circle_datum c \<in> relatedNodes (set ids) rootNode then 3 else 2)\<rparr>)
        nodeSelection,
      map (\<lambda>l. l\<lparr>linkPath_stroke :=
                    (case linkPath_datum l of
                       None \<Rightarrow> ''#bbb''
                     | Some d \<Rightarrow>
                         (case (link_source d, link_target d) of
                            (Some source, Some target) \<Rightarrow>
                              if source \<in> relatedNodes (set ids) rootNode
                                 \<and> target \<in> relatedNodes (set ids) rootNode
                              then ''#f48fb1'' else ''#bbb''
                          | _ \<Rightarrow> ''#bbb''))\<rparr>)
        linkSelection)"
  using assms by (simp add: applyHighlights_def Let_def)

lemma applyHighlights_marks:
  assumes ids: "ids \<noteq> []"
    and q: "q \<in> relatedNodes (set ids) rootNode"
    and c: "c \<in> set (fst (applyHighlights nodeSelection linkSelection (Some ids) rootNode))"
    and d: "circle_datum c = q"
  shows "(circle_stroke c = ''#e53935'' \<and> circle_stroke_width c = 5)
       \<or> (circle_stroke c = ''#f48fb1'' \<and> circle_stroke_width c = 3)"
  using c q d unfolding applyHighlights_nonempty [OF ids] by (auto split: if_splits)

lemma applyHighlights_unmarked:
  assumes ids: "ids \<noteq> []"
    and q: "q \<notin> relatedNodes (set ids) rootNode" "\<not> has_id (set ids) rootNode q"
    and c: "c \<in> set (fst (applyHighlights nodeSelection linkSelection (Some ids) rootNode))"
    and d: "circle_datum c = q"
  shows "circle_stroke c = ''#fff'' \<and> circle_stroke_width c = 2"
  using c q d unfolding applyHighlights_nonempty [OF ids] by (auto split: if_splits)

text \<open>
  C4. The closure \<open>relatedNodes\<close> that \<open>applyHighlights\<close> computes contains, for every
  node \<open>m\<close> of the tree whose id is among the highlighted ids, the node itself, all its
  ancestors (the prefixes of its path, up to the root \<open>[]\<close>) and all its descendants (the
  nodes of the tree whose path extends its path); and \<open>applyHighlights\<close> applies it: the
  circle of each of these nodes comes out with the stroke of a match (\<open>#e53935\<close>, width 5)
  or of a related node (\<open>#f48fb1\<close>, width 3), and for a non-empty list of ids the two
  selections it returns are exactly the ones the closure decides. For an empty set of
  ids the closure is empty, and with no highlighted ids (\<open>null\<close> or an empty array)
  \<open>applyHighlights\<close> returns both selections as they are.
\<close>

theorem applyHighlights_closure:
  "(subtree rootNode m \<noteq> None \<and> node_id rootNode m = Some i \<and> i \<in> set ids \<longrightarrow>
      m \<in> relatedNodes (set ids) rootNode
      \<and> (\<forall>a. prefix a m \<longrightarrow> a \<in> relatedNodes (set ids) rootNode)
      \<and> (\<forall>d. prefix m d \<and> subtree rootNode d \<noteq> None \<longrightarrow> d \<in> relatedNodes (set ids) rootNode)
      \<and> (\<forall>q c. (prefix q m \<or> (prefix m q \<and> subtree rootNode q \<noteq> None))
             \<and> c \<in> set (fst (applyHighlights nodeSelection linkSelection (Some ids) rootNode))
             \<and> circle_datum c = q
           \<longrightarrow> (circle_stroke c = ''#e53935'' \<and> circle_stroke_width c = 5)
             \<or> (circle_stroke c = ''#f48fb1'' \<and> circle_stroke_width c = 3)))
   \<and> (ids \<noteq> [] \<longrightarrow>
        applyHighlights nodeSelection linkSelection (Some ids) rootNode =
          (map (\<lambda>c. c\<lparr>circle_stroke :=
                         (if has_id (set ids) rootNode (circle_datum c) then ''#e53935''
                          else if circle_datum c \<in> relatedNodes (set ids) rootNode
                               then ''#f48fb1'' else ''#fff''),
                       circle_stroke_width :=
                         (if has_id (set ids) rootNode (circle_datum c) then 5
                          else if circle_datum c \<in> relatedNodes (set ids) rootNode
                               then 3 else 2)\<rparr>)
             nodeSelection,
           map (\<lambda>l. l\<lparr>linkPath_stroke :=
                         (case linkPath_datum l of
                            None \<Rightarrow> ''#bbb''
                          | Some d \<Rightarrow>
                              (case (link_source d, link_target d) of
                                 (Some source, Some target) \<Rightarrow>
                                   if source \<in> relatedNodes (set ids) rootNode
                                      \<and> target \<in> relatedNodes (set ids) rootNode
                                   then ''#f48fb1'' else ''#bbb''
                               | _ \<Rightarrow> ''#bbb''))\<rparr>)
             linkSelection))
   \<and> relatedNodes {} rootNode = {}
   \<and> applyHighlights nodeSelection linkSelection None rootNode = (nodeSelection, linkSelection)
   \<and> applyHighlights nodeSelection linkSelection (Some []) rootNode = (nodeSelection, linkSelection)"
proof (intro conjI impI allI)
  show "relatedNodes {} rootNode = {}"
    by (simp add: relatedNodes_eq has_id_def split: option.splits)
  show "applyHighlights nodeSelection linkSelection None rootNode = (nodeSelection, linkSelection)"
    by (simp add: applyHighlights_def)
  show "applyHighlights nodeSelection linkSelection (Some []) rootNode = (nodeSelection, linkSelection)"
    by (simp add: applyHighlights_def)
next
  assume "ids \<noteq> []"
  then show "applyHighlights nodeSelection linkSelection (Some ids) rootNode =
          (map (\<lambda>c. c\<lparr>circle_stroke :=
                         (if has_id (set ids) rootNode (circle_datum c) then ''#e53935''
                          else if circle_datum c \<in> relatedNodes (set ids) rootNode
                               then ''#f48fb1'' else ''#fff''),
                       circle_stroke_width :=
                         (if has_id (set ids) rootNode (circle_datum c) then 5
                          else if circle_datum c \<in> relatedNodes (set ids) rootNode
                               then 3 else 2)\<rparr>)
             nodeSelection,
           map (\<lambda>l. l\<lparr>linkPath_stroke :=
                         (case linkPath_datum l of
                            None \<Rightarrow> ''#bbb''
                          | Some d \<Rightarrow>
                              (case (link_source d, link_target d) of
                                 (Some source, Some target) \<Rightarrow>
                                   if source \<in> relatedNodes (set ids) rootNode
                                      \<and> target \<in> relatedNodes (set ids) rootNode
                                   then ''#f48fb1'' else ''#bbb''
                               | _ \<Rightarrow> ''#bbb''))\<rparr>)
             linkSelection)"
    by (rule applyHighlights_nonempty)
next
  assume m: "subtree rootNode m \<noteq> None \<and> node_id rootNode m = Some i \<and> i \<in> set ids"
  then have h: "has_id (set ids) rootNode m" by (simp add: has_id_def)
  from m h show "m \<in> relatedNodes (set ids) rootNode"
    unfolding relatedNodes_eq by blast
  fix a assume "prefix a m"
  with m h show "a \<in> relatedNodes (set ids) rootNode"
    unfolding relatedNodes_eq by blast
next
  fix d
  assume m: "subtree rootNode m \<noteq> None \<and> node_id rootNode m = Some i \<and> i \<in> set ids"
    and d: "prefix m d \<and> subtree rootNode d \<noteq> None"
  then have h: "has_id (set ids) rootNode m" by (simp add: has_id_def)
  from m h d show "d \<in> relatedNodes (set ids) rootNode"
    unfolding relatedNodes_eq by blast
next
  fix q c
  assume m: "subtree rootNode m \<noteq> None \<and> node_id rootNode m = Some i \<and> i \<in> set ids"
    and q: "(prefix q m \<or> (prefix m q \<and> subtree rootNode q \<noteq> None))
             \<and> c \<in> set (fst (applyHighlights nodeSelection linkSelection (Some ids) rootNode))
             \<and> circle_datum c = q"
  from m have h: "has_id (set ids) rootNode m" by (simp add: has_id_def)
  from m have ne: "ids \<noteq> []" by auto
  from m h q have "q \<in> relatedNodes (set ids) rootNode"
    unfolding relatedNodes_eq by blast
  from applyHighlights_marks [OF ne this, of c nodeSelection linkSelection] q
  show "(circle_stroke c = ''#e53935'' \<and> circle_stroke_width c = 5)
      \<or> (circle_stroke c = ''#f48fb1'' \<and> circle_stroke_width c = 3)"
    by blast
qed

text \<open>
  The scenario's tree with the id \<open>a\<close> highlighted: \<open>a\<close> is the match, the root and the
  grandchild \<open>c\<close> are related, \<open>b\<close> is not; the links root--\<open>a\<close> and \<open>a\<close>--\<open>c\<close> are related.
\<close>

theorem applyHighlights_closure_witness:
  "node_id example_tree [0] = Some ''a''
   \<and> [0] \<in> relatedNodes (set [''a'']) example_tree
   \<and> [] \<in> relatedNodes (set [''a'']) example_tree
   \<and> [0, 0] \<in> relatedNodes (set [''a'']) example_tree
   \<and> [1] \<notin> relatedNodes (set [''a'']) example_tree
   \<and> applyHighlights example_circles example_links (Some [''a'']) example_tree
     = ([\<lparr>circle_datum = [], circle_stroke = ''#f48fb1'', circle_stroke_width = 3\<rparr>,
         \<lparr>circle_datum = [0], circle_stroke = ''#e53935'', circle_stroke_width = 5\<rparr>,
         \<lparr>circle_datum = [1], circle_stroke = ''#fff'', circle_stroke_width = 2\<rparr>,
         \<lparr>circle_datum = [0, 0], circle_stroke = ''#f48fb1'', circle_stroke_width = 3\<rparr>],
        [\<lparr>linkPath_datum = Some \<lparr>link_source = Some [], link_target = Some [0]\<rparr>,
           linkPath_stroke = ''#f48fb1''\<rparr>,
         \<lparr>linkPath_datum = Some \<lparr>link_source = Some [], link_target = Some [1]\<rparr>,
           linkPath_stroke = ''#bbb''\<rparr>,
         \<lparr>linkPath_datum = Some \<lparr>link_source = Some [0], link_target = Some [0, 0]\<rparr>,
           linkPath_stroke = ''#f48fb1''\<rparr>])"
proof -
  have m: "subtree example_tree [0] \<noteq> None \<and> node_id example_tree [0] = Some ''a''
      \<and> ''a'' \<in> set [''a'']"
    by code_simp
  have d: "prefix [0] [0, 0::nat] \<and> subtree example_tree [0, 0] \<noteq> None"
    by code_simp
  have a: "prefix [] [0::nat]" by simp
  have n: "[1] \<notin> relatedNodes (set [''a'']) example_tree"
    by code_simp
  have ev: "applyHighlights example_circles example_links (Some [''a'']) example_tree
     = ([\<lparr>circle_datum = [], circle_stroke = ''#f48fb1'', circle_stroke_width = 3\<rparr>,
         \<lparr>circle_datum = [0], circle_stroke = ''#e53935'', circle_stroke_width = 5\<rparr>,
         \<lparr>circle_datum = [1], circle_stroke = ''#fff'', circle_stroke_width = 2\<rparr>,
         \<lparr>circle_datum = [0, 0], circle_stroke = ''#f48fb1'', circle_stroke_width = 3\<rparr>],
        [\<lparr>linkPath_datum = Some \<lparr>link_source = Some [], link_target = Some [0]\<rparr>,
           linkPath_stroke = ''#f48fb1''\<rparr>,
         \<lparr>linkPath_datum = Some \<lparr>link_source = Some [], link_target = Some [1]\<rparr>,
           linkPath_stroke = ''#bbb''\<rparr>,
         \<lparr>linkPath_datum = Some \<lparr>link_source = Some [0], link_target = Some [0, 0]\<rparr>,
           linkPath_stroke = ''#f48fb1''\<rparr>])"
    by code_simp
  from applyHighlights_closure [of example_tree "[0]" "''a''" "[''a'']"
      example_circles example_links]
  have "[0] \<in> relatedNodes (set [''a'']) example_tree
      \<and> [] \<in> relatedNodes (set [''a'']) example_tree
      \<and> [0, 0] \<in> relatedNodes (set [''a'']) example_tree"
    using m d a by blast
  with m n ev show ?thesis by (simp only: simp_thms)
qed

section \<open>Properties of buildHierarchy\<close>

lemma fst_dataOf: "fst (dataOf f) = feature_id f"
  and snd_dataOf: "snd (dataOf f) = (f, [])"
  by (simp_all add: dataOf_def)

lemma map_of_dataOf_Cons:
  "map_of (map dataOf (a # fs)) k
     = (if k = feature_id a then Some (a, []) else map_of (map dataOf fs) k)"
  by (simp add: fst_dataOf snd_dataOf)

lemma map_of_dataOf_None:
  "feature_id f \<notin> feature_id ` set fs \<Longrightarrow> map_of (map dataOf fs) (feature_id f) = None"
  by (induction fs) (auto simp: dataOf_def)

lemma createNodes_Returns:
  assumes "''__proto__'' \<notin> feature_id ` set fs" "distinct (map feature_id fs)"
  shows "createNodes fs m = Returns (m ++ map_of (map dataOf fs))"
  using assms
proof (induction fs arbitrary: m)
  case Nil
  then show ?case by simp
next
  case (Cons f fs)
  then have a: "createNodes (f # fs) m = Returns (m(feature_id f \<mapsto> (f, [])) ++ map_of (map dataOf fs))"
    by auto
  have "map_of (map dataOf fs) (feature_id f) = None"
    using Cons.prems(2) by (intro map_of_dataOf_None) simp
  then have b: "m(feature_id f \<mapsto> (f, [])) ++ map_of (map dataOf fs)
      = m ++ map_of (map dataOf (f # fs))"
    by (auto simp: dataOf_def map_add_def fun_eq_iff split: option.splits)
  show ?case by (simp only: a b)
qed

lemma createNodes_distinct:
  assumes "''__proto__'' \<notin> feature_id ` set fs" "distinct (map feature_id fs)"
  shows "createNodes fs Map.empty = Returns (map_of (map dataOf fs))"
  using createNodes_Returns [OF assms, of Map.empty] by simp

lemma map_of_dataOf:
  assumes "distinct (map feature_id fs)"
  shows "map_of (map dataOf fs) k = Some v \<longleftrightarrow> (\<exists>f \<in> set fs. feature_id f = k \<and> v = (f, []))"
  using assms
proof (induction fs)
  case Nil
  then show ?case by simp
next
  case (Cons a fs)
  then have IH: "(map_of (map dataOf fs) k = Some v) = (\<exists>f\<in>set fs. feature_id f = k \<and> v = (f, []))"
    and na: "feature_id a \<notin> feature_id ` set fs" by simp_all
  show ?case
  proof (cases "k = feature_id a")
    case True
    have "\<not> (\<exists>f\<in>set fs. feature_id f = k \<and> v = (f, []))"
    proof
      assume "\<exists>f\<in>set fs. feature_id f = k \<and> v = (f, [])"
      then obtain f where "f \<in> set fs" "feature_id f = feature_id a" using True by blast
      then have "feature_id a \<in> feature_id ` set fs" by (metis imageI)
      with na show False by contradiction
    qed
    with True show ?thesis by (simp only: map_of_dataOf_Cons) auto
  next
    case False
    with IH show ?thesis by (simp only: map_of_dataOf_Cons) auto
  qed
qed

lemma linkChildren_Returns:
  assumes "\<forall>f \<in> set fs. truthy (feature_parent f) \<longrightarrow>
      the (feature_parent f) \<in> dom m \<or> the (feature_parent f) \<notin> set objectPrototypeKeys"
  shows "\<exists>m'. linkChildren fs m = Returns m' \<and> dom m' = dom m \<and>
      (\<forall>k f cs. m k = Some (f, cs) \<longrightarrow> m' k = Some (f, cs @ children_of fs k))"
  using assms
proof (induction fs arbitrary: m)
  case Nil
  then show ?case by (simp add: children_of_def)
next
  case (Cons g fs)
  show ?case
  proof (cases "truthy (feature_parent g) \<and> the (feature_parent g) \<in> dom m")
    case True
    then obtain pf pcs where p: "m (the (feature_parent g)) = Some (pf, pcs)" by auto
    let ?p = "the (feature_parent g)"
    let ?m1 = "m(?p \<mapsto> (pf, pcs @ [feature_id g]))"
    have step: "linkChildren (g # fs) m = linkChildren fs ?m1"
      using True p by (simp add: getProperty_def)
    have d1: "dom ?m1 = dom m" using p by auto
    have "\<forall>f \<in> set fs. truthy (feature_parent f) \<longrightarrow>
        the (feature_parent f) \<in> dom ?m1 \<or> the (feature_parent f) \<notin> set objectPrototypeKeys"
      using Cons.prems by (simp only: d1) simp
    from Cons.IH [OF this] obtain m' where
      m': "linkChildren fs ?m1 = Returns m'" "dom m' = dom ?m1"
      "\<forall>k f cs. ?m1 k = Some (f, cs) \<longrightarrow> m' k = Some (f, cs @ children_of fs k)"
      by blast
    have "m' k = Some (f, cs @ children_of (g # fs) k)" if "m k = Some (f, cs)" for k f cs
    proof (cases "k = ?p")
      case True
      with that p have "?m1 k = Some (f, cs @ [feature_id g])" by simp
      with m'(3) have "m' k = Some (f, (cs @ [feature_id g]) @ children_of fs k)" by blast
      then show ?thesis using True \<open>truthy (feature_parent g) \<and> ?p \<in> dom m\<close>
        by (simp add: children_of_def)
    next
      case False
      with that have "?m1 k = Some (f, cs)" by simp
      with m'(3) have "m' k = Some (f, cs @ children_of fs k)" by blast
      then show ?thesis using False by (simp add: children_of_def)
    qed
    with step m'(1,2) d1 show ?thesis by auto
  next
    case False
    have ok: "\<forall>f \<in> set fs. truthy (feature_parent f) \<longrightarrow>
        the (feature_parent f) \<in> dom m \<or> the (feature_parent f) \<notin> set objectPrototypeKeys"
      using Cons.prems by simp
    have step: "linkChildren (g # fs) m = linkChildren fs m"
    proof (cases "truthy (feature_parent g)")
      case True
      with False have nd: "m (the (feature_parent g)) = None" by auto
      with True Cons.prems have "the (feature_parent g) \<notin> set objectPrototypeKeys" by auto
      with True nd show ?thesis by (simp add: getProperty_def)
    next
      case False
      then show ?thesis by simp
    qed
    from Cons.IH [OF ok] obtain m' where
      m': "linkChildren fs m = Returns m'" "dom m' = dom m"
      "\<forall>k f cs. m k = Some (f, cs) \<longrightarrow> m' k = Some (f, cs @ children_of fs k)"
      by blast
    have "children_of (g # fs) k = children_of fs k" if "k \<in> dom m" for k
      using that False by (auto simp: children_of_def)
    with step m' show ?thesis by (metis domI)
  qed
qed


lemma those_map_Some: "(\<forall>x \<in> set xs. f x \<noteq> None) \<Longrightarrow> those (map f xs) \<noteq> None"
  by (induction xs) (auto split: option.splits)

lemma those_map_all2:
  "those (map f xs) = Some ys \<Longrightarrow> list_all2 (\<lambda>x y. f x = Some y) xs ys"
  by (induction xs arbitrary: ys) (auto split: option.splits)

lemma hierarchy_root_data:
  "hierarchy n m i = Some t \<Longrightarrow> \<exists>cs. m i = Some (node_data t, cs)"
  by (cases n) (auto split: option.splits)

lemma hierarchy_features:
  "hierarchy n m i = Some t \<Longrightarrow> f \<in> set (tree_features t) \<Longrightarrow>
     f = node_data t \<or> (\<exists>p c cs. child m p c \<and> m c = Some (f, cs))"
proof (induction n arbitrary: i t)
  case 0
  then show ?case by simp
next
  case (Suc n)
  from Suc.prems(1) obtain d cs ts where
    mi: "m i = Some (d, cs)" and th: "those (map (hierarchy n m) cs) = Some ts"
    and t: "t = HNode d None None ts"
    by (auto split: option.splits)
  from th have all2: "list_all2 (\<lambda>c s. hierarchy n m c = Some s) cs ts"
    by (rule those_map_all2)
  show ?case
  proof (cases "f = d")
    case True
    then show ?thesis using t by simp
  next
    case False
    with Suc.prems(2) t obtain s where s: "s \<in> set ts" and fs: "f \<in> set (tree_features s)"
      by auto
    from s obtain j where j: "j < length ts" "ts ! j = s" by (auto simp: in_set_conv_nth)
    with all2 have len: "j < length cs" and run: "hierarchy n m (cs ! j) = Some s"
      by (auto simp: list_all2_conv_all_nth)
    from len mi have ch: "child m i (cs ! j)" by (auto simp: child_def)
    from Suc.IH [OF run fs] show ?thesis
    proof
      assume "f = node_data s"
      with hierarchy_root_data [OF run] ch show ?thesis by blast
    next
      assume "\<exists>p c cs. child m p c \<and> m c = Some (f, cs)"
      then show ?thesis by blast
    qed
  qed
qed

lemma hierarchy_total:
  assumes fin: "finite (dom m)"
    and par: "\<And>p c. child m p c \<Longrightarrow> c \<in> dom m \<and> par c = Some p"
    and root: "par r = None"
  shows "card (dom m) < n + length anc \<Longrightarrow> distinct anc \<Longrightarrow> set anc \<subseteq> dom m \<Longrightarrow>
      anc \<noteq> [] \<Longrightarrow> hd anc = r \<Longrightarrow> successively (child m) anc \<Longrightarrow> last anc = i \<Longrightarrow>
      hierarchy n m i \<noteq> None"
proof (induction n arbitrary: i anc)
  case 0
  have "length anc = card (set anc)" using 0(2) by (simp add: distinct_card)
  also have "\<dots> \<le> card (dom m)" using 0(3) fin by (rule card_mono [rotated])
  finally show ?case using 0(1) by simp
next
  case (Suc n)
  from Suc.prems(3,4,7) have "i \<in> dom m" using last_in_set by blast
  then obtain d cs where mi: "m i = Some (d, cs)" by auto
  have "hierarchy n m c \<noteq> None" if c: "c \<in> set cs" for c
  proof -
    from c mi have ch: "child m i c" by (auto simp: child_def)
    with par have cd: "c \<in> dom m" and pc: "par c = Some i" by blast+
    have notin: "c \<notin> set anc"
    proof
      assume "c \<in> set anc"
      then obtain j where j: "j < length anc" "anc ! j = c" by (auto simp: in_set_conv_nth)
      show False
      proof (cases j)
        case 0
        with j Suc.prems(4,5) have "c = r" by (simp add: hd_conv_nth)
        with pc root show False by simp
      next
        case (Suc k)
        with j Suc.prems(6) have "child m (anc ! k) (anc ! Suc k)"
          unfolding successively_conv_nth by blast
        with par Suc j have "par c = Some (anc ! k)" by blast
        with pc have "anc ! k = i" by simp
        also have "i = anc ! (length anc - 1)"
          using Suc.prems(4,7) by (simp add: last_conv_nth)
        finally have "k = length anc - 1"
          using Suc.prems(2) j Suc by (simp add: nth_eq_iff_index_eq)
        with j Suc show False by simp
      qed
    qed
    have "successively (child m) (anc @ [c])"
      using Suc.prems(4,6,7) ch by (simp add: successively_append_iff)
    moreover have "card (dom m) < n + length (anc @ [c])" using Suc.prems(1) by simp
    moreover have "distinct (anc @ [c])" using Suc.prems(2) notin by simp
    moreover have "set (anc @ [c]) \<subseteq> dom m" using Suc.prems(3) cd by simp
    moreover have "hd (anc @ [c]) = r" using Suc.prems(4,5) by simp
    ultimately show ?thesis
      by (intro Suc.IH [of "anc @ [c]" c]) simp_all
  qed
  then have "those (map (hierarchy n m) cs) \<noteq> None" by (intro those_map_Some) blast
  with mi show ?case by (auto split: option.splits)
qed


lemma dom_map_of_dataOf: "dom (map_of (map dataOf fs)) = feature_id ` set fs"
  by (simp add: dom_map_of_conv_image_fst image_image fst_dataOf)

lemma linked_store:
  assumes "well_formed fs"
  shows "\<exists>linked. createNodes fs Map.empty = Returns (map_of (map dataOf fs)) \<and>
      linkChildren fs (map_of (map dataOf fs)) = Returns linked \<and>
      dom linked = feature_id ` set fs \<and>
      (\<forall>k v. linked k = Some v \<longleftrightarrow>
         (\<exists>f \<in> set fs. feature_id f = k \<and> v = (f, children_of fs k)))"
proof -
  let ?m0 = "map_of (map dataOf fs)"
  from assms have d: "distinct (map feature_id fs)" and np: "''__proto__'' \<notin> feature_id ` set fs"
    and ok: "\<forall>f \<in> set fs. truthy (feature_parent f) \<longrightarrow>
         the (feature_parent f) \<in> dom ?m0 \<or> the (feature_parent f) \<notin> set objectPrototypeKeys"
    by (simp_all add: well_formed_def dom_map_of_dataOf)
  from linkChildren_Returns [OF ok] obtain linked where
    l: "linkChildren fs ?m0 = Returns linked" "dom linked = dom ?m0"
    "\<forall>k f cs. ?m0 k = Some (f, cs) \<longrightarrow> linked k = Some (f, cs @ children_of fs k)"
    by blast
  have "linked k = Some v \<longleftrightarrow> (\<exists>f \<in> set fs. feature_id f = k \<and> v = (f, children_of fs k))"
    for k v
  proof
    assume lk: "linked k = Some v"
    then have "k \<in> dom ?m0" using l(2) by auto
    then obtain w where w: "?m0 k = Some w" by auto
    with map_of_dataOf [OF d] obtain f where f: "f \<in> set fs" "feature_id f = k" "w = (f, [])"
      by blast
    with w l(3) have "linked k = Some (f, [] @ children_of fs k)" by blast
    with lk f show "\<exists>f \<in> set fs. feature_id f = k \<and> v = (f, children_of fs k)" by auto
  next
    assume "\<exists>f \<in> set fs. feature_id f = k \<and> v = (f, children_of fs k)"
    then obtain f where f: "f \<in> set fs" "feature_id f = k" "v = (f, children_of fs k)" by blast
    with map_of_dataOf [OF d] have "?m0 k = Some (f, [])" by blast
    with l(3) have "linked k = Some (f, [] @ children_of fs k)" by blast
    with f show "linked k = Some v" by simp
  qed
  with createNodes_distinct [OF np d] l(1,2) show ?thesis
    by (auto simp: dom_map_of_dataOf)
qed

lemma find_first:
  assumes "fs = pre @ r # post" "\<forall>f \<in> set pre. \<not> P f" "P r"
  shows "find P fs = Some r"
  using assms(2) unfolding assms(1) by (induction pre) (simp_all add: assms(3))

lemma find_by_id:
  assumes "distinct (map feature_id fs)" "g \<in> set fs"
  shows "find (\<lambda>h. feature_id h = feature_id g) fs = Some g"
  using assms by (induction fs) force+

lemma buildHierarchy_tree:
  assumes wf: "well_formed (features model)"
    and split: "features model = pre @ r # post"
    and pre: "\<forall>f \<in> set pre. truthy (feature_parent f)"
    and r: "\<not> truthy (feature_parent r)"
    and fuel: "length (features model) \<le> fuel"
  shows "\<exists>rootNode. buildHierarchy fuel model = Returns (Some rootNode) \<and> node_data rootNode = r \<and>
      (\<forall>f \<in> set (tree_features rootNode). f = r \<or>
          (f \<in> set (features model) \<and> truthy (feature_parent f) \<and>
           the (feature_parent f) \<in> feature_id ` set (features model)))"
proof -
  let ?fs = "features model"
  from wf have d: "distinct (map feature_id ?fs)" by (simp add: well_formed_def)
  from linked_store [OF wf] obtain linked where
    cn: "createNodes ?fs Map.empty = Returns (map_of (map dataOf ?fs))"
    and lc: "linkChildren ?fs (map_of (map dataOf ?fs)) = Returns linked"
    and dl: "dom linked = feature_id ` set ?fs"
    and lk: "\<forall>k v. linked k = Some v \<longleftrightarrow>
         (\<exists>f \<in> set ?fs. feature_id f = k \<and> v = (f, children_of ?fs k))"
    by blast
  have rin: "r \<in> set ?fs" using split by simp
  have fnd: "find (\<lambda>feature. \<not> truthy (feature_parent feature)) ?fs = Some r"
    using split pre r by (intro find_first [of _ pre r post]) simp_all
  have ch: "\<exists>g \<in> set ?fs. feature_id g = c \<and> truthy (feature_parent g) \<and> the (feature_parent g) = p
      \<and> p \<in> feature_id ` set ?fs"
    if "child linked p c" for p c
  proof -
    from that obtain pf cs where "linked p = Some (pf, cs)" "c \<in> set cs"
      by (auto simp: child_def)
    with lk have "c \<in> set (children_of ?fs p)" and "p \<in> feature_id ` set ?fs" by auto
    then show ?thesis by (auto simp: children_of_def)
  qed
  have par: "c \<in> dom linked \<and> parent_id ?fs c = Some p" if "child linked p c" for p c
  proof -
    from ch [OF that] obtain g where g: "g \<in> set ?fs" "feature_id g = c"
      "truthy (feature_parent g)" "the (feature_parent g) = p" by blast
    from find_by_id [OF d g(1)] g(2) have "find (\<lambda>h. feature_id h = c) ?fs = Some g" by simp
    moreover from g(3,4) have "feature_parent g = Some p"
      by (auto simp: truthy_def split: option.splits)
    ultimately have "parent_id ?fs c = Some p" using g(3) by (simp add: parent_id_def)
    with g(1,2) dl show ?thesis by auto
  qed
  have root: "parent_id ?fs (feature_id r) = None"
    using find_by_id [OF d rin] r by (simp add: parent_id_def)
  have "card (dom linked) \<le> length ?fs"
    unfolding dl by (metis card_image_le card_length le_trans List.finite_set)
  with fuel have c: "card (dom linked) < fuel + length [feature_id r]" by simp
  have "hierarchy fuel linked (feature_id r) \<noteq> None"
    by (rule hierarchy_total [of linked "parent_id ?fs" "feature_id r" fuel "[feature_id r]"])
      (use par root c dl rin in \<open>auto simp: dl\<close>)
  then obtain rootNode where h: "hierarchy fuel linked (feature_id r) = Some rootNode" by auto
  from hierarchy_root_data [OF h] lk have nd: "node_data rootNode = r"
    using find_by_id [OF d] rin d
    by (metis (no_types, lifting) Pair_inject distinct_map inj_on_eq_iff)
  have ex: "f = r \<or> (f \<in> set ?fs \<and> truthy (feature_parent f) \<and>
           the (feature_parent f) \<in> feature_id ` set ?fs)"
    if "f \<in> set (tree_features rootNode)" for f
  proof -
    from hierarchy_features [OF h that] show ?thesis
    proof
      assume "f = node_data rootNode"
      with nd show ?thesis by simp
    next
      assume "\<exists>p c cs. child linked p c \<and> linked c = Some (f, cs)"
      then obtain p c cs where pc: "child linked p c" and lc: "linked c = Some (f, cs)" by blast
      from ch [OF pc] obtain g where g: "g \<in> set ?fs" "feature_id g = c"
        "truthy (feature_parent g)" "the (feature_parent g) = p" "p \<in> feature_id ` set ?fs"
        by blast
      from lc lk obtain f' where f': "f' \<in> set ?fs" "feature_id f' = c" "f = f'" by auto
      with g d have "f = g" by (metis distinct_map inj_on_eq_iff)
      with g show ?thesis by simp
    qed
  qed
  from cn lc fnd h have "buildHierarchy fuel model = Returns (Some rootNode)"
    by (simp add: buildHierarchy_def)
  with nd ex show ?thesis by blast
qed

lemma buildHierarchy_null:
  assumes wf: "well_formed (features model)"
    and none: "\<forall>f \<in> set (features model). truthy (feature_parent f)"
  shows "buildHierarchy fuel model = Returns None"
proof -
  from linked_store [OF wf] obtain linked where
    cn: "createNodes (features model) Map.empty = Returns (map_of (map dataOf (features model)))"
    and lc: "linkChildren (features model) (map_of (map dataOf (features model))) = Returns linked"
    by blast
  from none have "find (\<lambda>feature. \<not> truthy (feature_parent feature)) (features model) = None"
    by (simp add: find_None_iff)
  with cn lc show ?thesis by (simp add: buildHierarchy_def)
qed

text \<open>
  C1, as stated, fails: a feature whose parent id does not exist is no root candidate.
  In \<open>[{id: "a", parent: "zzz"}, {id: "b"}]\<close> the first feature has a parent id that
  no feature has, and the root of the tree is \<open>b\<close>; alone, \<open>[{id: "a", parent: "zzz"}]\<close>
  gives \<open>null\<close>.
\<close>

theorem buildHierarchy_dangling_first_counterexample:
  "buildHierarchy 2
      \<lparr>features = [mkFeature ''a'' (Some ''zzz''), mkFeature ''b'' None], constraints = None\<rparr>
   = Returns (Some (HNode (mkFeature ''b'' None) None None []))
   \<and> buildHierarchy 1 \<lparr>features = [mkFeature ''a'' (Some ''zzz'')], constraints = None\<rparr>
   = Returns None"
  by code_simp

text \<open>
  C1, amended. For a well-formed feature list (unique ids, see \<open>well_formed\<close>),
  \<open>buildHierarchy\<close> returns: the root of the tree is the first feature in input order
  that has no parent (\<open>null\<close>, absent or empty); every other feature without a parent
  and every feature whose parent id no feature has is left out of the tree. A feature
  whose parent id does not exist is no root candidate: when every feature has a parent,
  the result is \<open>null\<close>.
\<close>

theorem buildHierarchy_root:
  assumes "well_formed (features model)" and "length (features model) \<le> fuel"
  shows "(features model = pre @ r # post \<and> (\<forall>f \<in> set pre. truthy (feature_parent f))
          \<and> \<not> truthy (feature_parent r) \<longrightarrow>
            (\<exists>rootNode. buildHierarchy fuel model = Returns (Some rootNode)
               \<and> node_data rootNode = r
               \<and> (\<forall>f \<in> set (features model).
                     f \<noteq> r \<and> (\<not> truthy (feature_parent f)
                               \<or> the (feature_parent f) \<notin> feature_id ` set (features model))
                     \<longrightarrow> f \<notin> set (tree_features rootNode))))
       \<and> ((\<forall>f \<in> set (features model). truthy (feature_parent f)) \<longrightarrow>
            buildHierarchy fuel model = Returns None)"
proof (intro conjI impI)
  assume a: "features model = pre @ r # post \<and> (\<forall>f \<in> set pre. truthy (feature_parent f))
      \<and> \<not> truthy (feature_parent r)"
  with buildHierarchy_tree [OF assms(1), of pre r post fuel] assms(2)
  obtain rootNode where t: "buildHierarchy fuel model = Returns (Some rootNode)"
    "node_data rootNode = r"
    "\<forall>f \<in> set (tree_features rootNode). f = r \<or>
          (f \<in> set (features model) \<and> truthy (feature_parent f) \<and>
           the (feature_parent f) \<in> feature_id ` set (features model))"
    by blast
  from t(3) have "\<forall>f \<in> set (features model).
      f \<noteq> r \<and> (\<not> truthy (feature_parent f)
                \<or> the (feature_parent f) \<notin> feature_id ` set (features model))
      \<longrightarrow> f \<notin> set (tree_features rootNode)"
    by blast
  with t(1,2) show "\<exists>rootNode. buildHierarchy fuel model = Returns (Some rootNode)
               \<and> node_data rootNode = r
               \<and> (\<forall>f \<in> set (features model).
                     f \<noteq> r \<and> (\<not> truthy (feature_parent f)
                               \<or> the (feature_parent f) \<notin> feature_id ` set (features model))
                     \<longrightarrow> f \<notin> set (tree_features rootNode))"
    by blast
next
  assume "\<forall>f \<in> set (features model). truthy (feature_parent f)"
  then show "buildHierarchy fuel model = Returns None"
    by (rule buildHierarchy_null [OF assms(1)])
qed

text \<open>
  A list with a dangling parent first, the root second, a child of the root, and a
  second feature without a parent: the tree is the root with its child.
\<close>

theorem buildHierarchy_root_witness:
  "well_formed [mkFeature ''a'' (Some ''zzz''), mkFeature ''root'' None,
                mkFeature ''b'' (Some ''root''), mkFeature ''c'' None]
   \<and> buildHierarchy 4
        \<lparr>features = [mkFeature ''a'' (Some ''zzz''), mkFeature ''root'' None,
                     mkFeature ''b'' (Some ''root''), mkFeature ''c'' None],
         constraints = None\<rparr>
      = Returns (Some (HNode (mkFeature ''root'' None) None None
                         [HNode (mkFeature ''b'' (Some ''root'')) None None []]))
   \<and> mkFeature ''a'' (Some ''zzz'')
        \<notin> set (tree_features (HNode (mkFeature ''root'' None) None None
                         [HNode (mkFeature ''b'' (Some ''root'')) None None []]))
   \<and> mkFeature ''c'' None
        \<notin> set (tree_features (HNode (mkFeature ''root'' None) None None
                         [HNode (mkFeature ''b'' (Some ''root'')) None None []]))"
proof -
  let ?fs = "[mkFeature ''a'' (Some ''zzz''), mkFeature ''root'' None,
              mkFeature ''b'' (Some ''root''), mkFeature ''c'' None]"
  let ?model = "\<lparr>features = ?fs, constraints = None\<rparr>"
  have wf: "well_formed (features ?model)"
    by (simp add: well_formed_def mkFeature_def truthy_def objectPrototypeKeys_def)
  have fuel: "length (features ?model) \<le> 4" by simp
  have sp: "features ?model = [mkFeature ''a'' (Some ''zzz'')] @ mkFeature ''root'' None
        # [mkFeature ''b'' (Some ''root''), mkFeature ''c'' None]
      \<and> (\<forall>f \<in> set [mkFeature ''a'' (Some ''zzz'')]. truthy (feature_parent f))
      \<and> \<not> truthy (feature_parent (mkFeature ''root'' None))"
    by (simp add: mkFeature_def truthy_def)
  have ev: "buildHierarchy 4 ?model
      = Returns (Some (HNode (mkFeature ''root'' None) None None
                         [HNode (mkFeature ''b'' (Some ''root'')) None None []]))"
    by code_simp
  from buildHierarchy_root [OF wf fuel, of "[mkFeature ''a'' (Some ''zzz'')]"
      "mkFeature ''root'' None" "[mkFeature ''b'' (Some ''root''), mkFeature ''c'' None]"] sp
  obtain rootNode where r: "buildHierarchy 4 ?model = Returns (Some rootNode)"
    "node_data rootNode = mkFeature ''root'' None"
    by blast
  have ex: "mkFeature ''a'' (Some ''zzz'')
        \<notin> set (tree_features (HNode (mkFeature ''root'' None) None None
                         [HNode (mkFeature ''b'' (Some ''root'')) None None []]))
      \<and> mkFeature ''c'' None
        \<notin> set (tree_features (HNode (mkFeature ''root'' None) None None
                         [HNode (mkFeature ''b'' (Some ''root'')) None None []]))"
    by (simp add: mkFeature_def)
  from wf r ev ex show ?thesis by simp
qed

text \<open>
  C7 holds on well-formed feature lists: \<open>buildHierarchy\<close> returns, and it returns
  \<open>null\<close> exactly when no feature is without a parent (the empty list included).
\<close>

lemma buildHierarchy_returns:
  assumes "well_formed (features model)" and "length (features model) \<le> fuel"
  shows "\<exists>v. buildHierarchy fuel model = Returns v"
    and "buildHierarchy fuel model = Returns None
          \<longleftrightarrow> (\<forall>f \<in> set (features model). truthy (feature_parent f))"
proof -
  show "\<exists>v. buildHierarchy fuel model = Returns v"
  proof (cases "\<forall>f \<in> set (features model). truthy (feature_parent f)")
    case True
    then show ?thesis using buildHierarchy_null [OF assms(1)] by blast
  next
    case False
    then obtain pre r post where "features model = pre @ r # post"
      "\<forall>f \<in> set pre. truthy (feature_parent f)" "\<not> truthy (feature_parent r)"
      using split_list_first_prop [of "features model" "\<lambda>f. \<not> truthy (feature_parent f)"]
      by auto
    from buildHierarchy_tree [OF assms(1) this assms(2)] show ?thesis by blast
  qed
  show "buildHierarchy fuel model = Returns None
          \<longleftrightarrow> (\<forall>f \<in> set (features model). truthy (feature_parent f))"
  proof
    assume n: "buildHierarchy fuel model = Returns None"
    show "\<forall>f \<in> set (features model). truthy (feature_parent f)"
    proof (rule ccontr)
      assume "\<not> (\<forall>f \<in> set (features model). truthy (feature_parent f))"
      then obtain pre r post where "features model = pre @ r # post"
        "\<forall>f \<in> set pre. truthy (feature_parent f)" "\<not> truthy (feature_parent r)"
        using split_list_first_prop [of "features model" "\<lambda>f. \<not> truthy (feature_parent f)"]
        by auto
      from buildHierarchy_tree [OF assms(1) this assms(2)] n show False by auto
    qed
  next
    assume "\<forall>f \<in> set (features model). truthy (feature_parent f)"
    then show "buildHierarchy fuel model = Returns None"
      by (rule buildHierarchy_null [OF assms(1)])
  qed
qed

text \<open>
  C7, the failing input: \<open>[{id: "root"}, {id: "a", parent: "constructor"}]\<close>. No feature
  has the id \<open>constructor\<close>, yet \<open>featureById["constructor"]\<close> is the inherited \<open>Object\<close>
  function, which is truthy and has no \<open>children\<close>: the push throws a \<open>TypeError\<close>.
\<close>

theorem buildHierarchy_inherited_parent_throws:
  "buildHierarchy fuel
      \<lparr>features = [mkFeature ''root'' None, mkFeature ''a'' (Some ''constructor'')],
       constraints = None\<rparr>
   = Throws"
  by (simp add: buildHierarchy_def mkFeature_def truthy_def getProperty_def
      objectPrototypeKeys_def)

text \<open>
  With two features of the same id the data objects can refer to themselves, and
  \<open>d3.hierarchy\<close> does not end, whatever the fuel.
\<close>

lemma hierarchy_self_loop:
  "hierarchy n (Map.empty(''a'' \<mapsto> (f, [''a'']))) ''a'' = None"
  by (induction n) simp_all

lemma buildHierarchy_duplicate_id_diverges:
  "buildHierarchy fuel
      \<lparr>features = [mkFeature ''a'' None, mkFeature ''a'' (Some ''a'')], constraints = None\<rparr>
   = Diverges"
  by (simp add: buildHierarchy_def mkFeature_def truthy_def getProperty_def
      hierarchy_self_loop)

section \<open>Properties of drawConstraints\<close>

lemma drawConstraints_unfold:
  assumes "indexNodes (descendant_nodes rootNode) Map.empty = Returns nodeById"
  shows "drawConstraints model rootNode =
     Returns (concat (map (drawConstraint nodeById)
                (case constraints model of None \<Rightarrow> [] | Some cs \<Rightarrow> cs)))"
  using assms by (simp add: drawConstraints_def)

lemma indexNodes_never_throws:
  "indexNodes nodes m \<noteq> Throws \<and> indexNodes nodes m \<noteq> Diverges"
  by (induction nodes arbitrary: m) auto

lemma drawConstraints_never_throws:
  "drawConstraints model rootNode \<noteq> Throws \<and> drawConstraints model rootNode \<noteq> Diverges"
  using indexNodes_never_throws [of "descendant_nodes rootNode" Map.empty]
  by (auto simp: drawConstraints_def split: outcome.splits)

lemma indexNodes_Returns:
  "''__proto__'' \<notin> (\<lambda>n. feature_id (node_data n)) ` set nodes \<Longrightarrow>
     \<exists>nodeById. indexNodes nodes m = Returns nodeById \<and>
       (\<forall>k n. nodeById k = Some n \<longrightarrow> m k = Some n \<or> (n \<in> set nodes \<and> feature_id (node_data n) = k)) \<and>
       (\<forall>k. nodeById k = None \<longleftrightarrow> m k = None \<and> k \<notin> (\<lambda>n. feature_id (node_data n)) ` set nodes)"
proof (induction nodes arbitrary: m)
  case Nil
  then show ?case by simp
next
  case (Cons a nodes)
  let ?m = "m(feature_id (node_data a) \<mapsto> a)"
  from Cons.prems have "''__proto__'' \<notin> (\<lambda>n. feature_id (node_data n)) ` set nodes" by simp
  from Cons.IH [OF this, of ?m] obtain nodeById where
    n: "indexNodes nodes ?m = Returns nodeById"
    "\<forall>k n. nodeById k = Some n \<longrightarrow> ?m k = Some n \<or> (n \<in> set nodes \<and> feature_id (node_data n) = k)"
    "\<forall>k. nodeById k = None \<longleftrightarrow> ?m k = None \<and> k \<notin> (\<lambda>n. feature_id (node_data n)) ` set nodes"
    by blast
  from Cons.prems n(1) have "indexNodes (a # nodes) m = Returns nodeById" by auto
  moreover from n(2) have "\<forall>k n. nodeById k = Some n \<longrightarrow>
      m k = Some n \<or> (n \<in> set (a # nodes) \<and> feature_id (node_data n) = k)"
    by (auto split: if_splits)
  moreover from n(3) have "\<forall>k. nodeById k = None \<longleftrightarrow>
      m k = None \<and> k \<notin> (\<lambda>n. feature_id (node_data n)) ` set (a # nodes)"
    by (auto split: if_splits)
  ultimately show ?case by blast
qed

lemma drawConstraint_skips:
  assumes "getProperty nodeById (constraint_a c) = Undefined
         \<or> getProperty nodeById (constraint_b c) = Undefined"
  shows "drawConstraint nodeById c = []"
  using assms by (auto simp: drawConstraint_def Let_def)

lemma drawConstraint_emits:
  assumes "getProperty nodeById (constraint_a c) \<noteq> Undefined"
    "getProperty nodeById (constraint_b c) \<noteq> Undefined"
  shows "length (drawConstraint nodeById c) = 1"
  using assms by (auto simp: drawConstraint_def Let_def)

lemma drawConstraint_resolved:
  assumes "nodeById (constraint_a c) = Some s" "nodeById (constraint_b c) = Some t"
    "node_x s = Some (Fin x1)" "node_y s = Some (Fin y1)"
    "node_x t = Some (Fin x2)" "node_y t = Some (Fin y2)"
  shows "map curve (drawConstraint nodeById c) =
      [ [(Fin x1, Fin y1),
        (Fin ((x1 + x2) / 2), Fin ((y1 + y2) / 2 - max 80 (\<bar>y1 - y2\<bar> / 3))),
        (Fin x2, Fin y2)] ]"
  using assms
  by (simp add: drawConstraint_def Let_def getProperty_def prop_x_def prop_y_def toNumber_def
      jsub_def Math_max_def max_def)


text \<open>
  C5, as stated, fails: the control point is not offset perpendicular to the chord. For a
  root at \<open>(0, 0)\<close> and its child at \<open>(0, 200)\<close> the chord is vertical, and the control
  point \<open>(0, 20)\<close> lies on it: the offset \<open>(0, -80)\<close> from the midpoint \<open>(0, 100)\<close> is
  parallel to the chord \<open>(0, 200)\<close>, their inner product is not zero.
\<close>

theorem drawConstraints_offset_counterexample:
  "drawConstraints
      \<lparr>features = [],
       constraints = Some [\<lparr>constraint_a = ''root'', constraint_b = ''a'',
                             constraint_type = ''requires''\<rparr>]\<rparr>
      example_chain
   = Returns [\<lparr>curve = [(Fin 0, Fin 0), (Fin 0, Fin 20), (Fin 0, Fin 200)],
               path_stroke = ''#2196f3'', path_dasharray = ''4 3'',
               markers = [(Some (Fin 0), Some (Fin 0)), (Some (Fin 0), Some (Fin 200))],
               marker_fill = ''#2196f3''\<rparr>]
   \<and> (0 - (0 + 0) / 2) * (0 - 0) + (20 - (0 + 200) / 2) * (200 - 0) \<noteq> (0::real)"
  by code_simp

text \<open>
  C5, amended. For a constraint whose two endpoint ids are entries of \<open>nodeById\<close> with
  finite coordinates, \<open>drawConstraints\<close> hands the line generator exactly three control
  points: the position of the source, the midpoint of the two positions moved by
  \<open>max(80, |\<Delta>y| / 3)\<close> towards smaller \<open>y\<close> (vertically, whatever the direction of the
  chord), and the position of the target. The overlays of a model are those of its
  constraints, in input order.
\<close>

theorem drawConstraint_curve:
  assumes "indexNodes (descendant_nodes rootNode) Map.empty = Returns nodeById"
    and "nodeById (constraint_a c) = Some s" and "nodeById (constraint_b c) = Some t"
    and "node_x s = Some (Fin x1)" and "node_y s = Some (Fin y1)"
    and "node_x t = Some (Fin x2)" and "node_y t = Some (Fin y2)"
  shows "drawConstraints model rootNode =
           Returns (concat (map (drawConstraint nodeById)
                      (case constraints model of None \<Rightarrow> [] | Some cs \<Rightarrow> cs)))
       \<and> map curve (drawConstraint nodeById c) =
           [ [(Fin x1, Fin y1),
             (Fin ((x1 + x2) / 2), Fin ((y1 + y2) / 2 - max 80 (\<bar>y1 - y2\<bar> / 3))),
             (Fin x2, Fin y2)] ]"
  using drawConstraints_unfold [OF assms(1)] drawConstraint_resolved [OF assms(2-7)]
  by simp

text \<open>
  The constraint between the root at \<open>(0, 0)\<close> and the grandchild \<open>c\<close> at \<open>(-70, 400)\<close>:
  the midpoint \<open>(-35, 200)\<close> is raised by \<open>400 / 3\<close>.
\<close>

theorem drawConstraint_curve_witness:
  "map curve (drawConstraint
      (Map.empty(''root'' \<mapsto> example_tree,
         ''a'' \<mapsto> HNode (mkFeature ''a'' (Some ''root'')) (Some (Fin (- 70))) (Some (Fin 200))
            [HNode (mkFeature ''c'' (Some ''a'')) (Some (Fin (- 70))) (Some (Fin 400)) []],
         ''b'' \<mapsto> HNode (mkFeature ''b'' (Some ''root'')) (Some (Fin 70)) (Some (Fin 200)) [],
         ''c'' \<mapsto> HNode (mkFeature ''c'' (Some ''a'')) (Some (Fin (- 70))) (Some (Fin 400)) []))
      \<lparr>constraint_a = ''root'', constraint_b = ''c'', constraint_type = ''excludes''\<rparr>)
   = [ [(Fin 0, Fin 0), (Fin (- 35), Fin (200 / 3)), (Fin (- 70), Fin 400)] ]"
proof -
  let ?c = "HNode (mkFeature ''c'' (Some ''a'')) (Some (Fin (- 70))) (Some (Fin 400)) []"
  let ?a = "HNode (mkFeature ''a'' (Some ''root'')) (Some (Fin (- 70))) (Some (Fin 200)) [?c]"
  let ?b = "HNode (mkFeature ''b'' (Some ''root'')) (Some (Fin 70)) (Some (Fin 200)) []"
  let ?m = "Map.empty(''root'' \<mapsto> example_tree, ''a'' \<mapsto> ?a, ''b'' \<mapsto> ?b, ''c'' \<mapsto> ?c)"
  let ?k = "\<lparr>constraint_a = ''root'', constraint_b = ''c'', constraint_type = ''excludes''\<rparr>"
  have ix: "indexNodes (descendant_nodes example_tree) Map.empty = Returns ?m"
    by (simp add: descendant_nodes_def descendants_def example_tree_def List.map_filter_def
        enumerate_eq_zip mkFeature_def)
  have s: "?m (constraint_a ?k) = Some example_tree" by simp
  have t: "?m (constraint_b ?k) = Some ?c" by simp
  have xs: "node_x example_tree = Some (Fin 0)" "node_y example_tree = Some (Fin 0)"
    by (simp_all add: example_tree_def)
  have xt: "node_x ?c = Some (Fin (- 70))" "node_y ?c = Some (Fin 400)" by simp_all
  have ar: "(0 + - 70) / 2 = (- 35::real)"
    "(0 + 400) / 2 - max 80 (\<bar>0 - 400\<bar> / 3) = (200 / 3::real)"
    by simp_all
  from drawConstraint_curve [OF ix s t xs xt]
  have "map curve (drawConstraint ?m ?k) =
      [ [(Fin 0, Fin 0),
        (Fin ((0 + - 70) / 2), Fin ((0 + 400) / 2 - max 80 (\<bar>0 - 400\<bar> / 3))),
        (Fin (- 70), Fin 400)] ]"
    by (rule conjunct2)
  then show ?thesis by (simp only: ar)
qed

text \<open>
  C6 holds for endpoint ids that are entries of \<open>nodeById\<close> or that \<open>nodeById\<close> does not
  know at all, and \<open>drawConstraints\<close> never throws; but a constraint is not skipped when
  an endpoint id that no node has names a member inherited from \<open>Object.prototype\<close>.
\<close>

lemma drawConstraints_skips_and_emits:
  assumes "indexNodes (descendant_nodes rootNode) Map.empty = Returns nodeById"
  shows "drawConstraints model rootNode =
           Returns (concat (map (drawConstraint nodeById)
                      (case constraints model of None \<Rightarrow> [] | Some cs \<Rightarrow> cs)))"
    and "nodeById (constraint_a c) = None \<Longrightarrow> constraint_a c \<notin> set objectPrototypeKeys \<Longrightarrow>
           drawConstraint nodeById c = []"
    and "nodeById (constraint_b c) = None \<Longrightarrow> constraint_b c \<notin> set objectPrototypeKeys \<Longrightarrow>
           drawConstraint nodeById c = []"
    and "nodeById (constraint_a c) \<noteq> None \<Longrightarrow> nodeById (constraint_b c) \<noteq> None \<Longrightarrow>
           length (drawConstraint nodeById c) = 1"
proof -
  show "drawConstraints model rootNode =
           Returns (concat (map (drawConstraint nodeById)
                      (case constraints model of None \<Rightarrow> [] | Some cs \<Rightarrow> cs)))"
    by (rule drawConstraints_unfold [OF assms])
  show "drawConstraint nodeById c = []"
    if "nodeById (constraint_a c) = None" "constraint_a c \<notin> set objectPrototypeKeys"
    using that by (intro drawConstraint_skips) (simp add: getProperty_def)
  show "drawConstraint nodeById c = []"
    if "nodeById (constraint_b c) = None" "constraint_b c \<notin> set objectPrototypeKeys"
    using that by (intro drawConstraint_skips) (simp add: getProperty_def)
  show "length (drawConstraint nodeById c) = 1"
    if "nodeById (constraint_a c) \<noteq> None" "nodeById (constraint_b c) \<noteq> None"
    using that by (intro drawConstraint_emits) (auto simp: getProperty_def)
qed

text \<open>
  C6, the failing input: the tree of the scenario and the constraint
  \<open>{a: "constructor", b: "root", type: "requires"}\<close>. No node has the id
  \<open>constructor\<close>, yet \<open>nodeById["constructor"]\<close> is the inherited \<open>Object\<close> function, which
  is truthy: the constraint is not skipped. A path with \<open>NaN\<close> coordinates and two
  marker circles are appended, the first circle without \<open>cx\<close> and \<open>cy\<close>.
\<close>

theorem drawConstraints_inherited_endpoint:
  "drawConstraints
      \<lparr>features = [],
       constraints = Some [\<lparr>constraint_a = ''constructor'', constraint_b = ''root'',
                             constraint_type = ''requires''\<rparr>]\<rparr>
      example_tree
   = Returns [\<lparr>curve = [(NaN, NaN), (NaN, NaN), (Fin 0, Fin 0)],
               path_stroke = ''#2196f3'', path_dasharray = ''4 3'',
               markers = [(None, None), (Some (Fin 0), Some (Fin 0))],
               marker_fill = ''#2196f3''\<rparr>]"
  by code_simp

end
